theory Spec2Isabelle
  imports Main "HOL-Library.Word" "HOL-Library.Signed_Division"
begin

section \<open>Data model of the schedulers\<close>

text \<open>
  The two headers (\<^verbatim>\<open>offline_schedulers.h\<close> and \<^verbatim>\<open>online_schedulers.h\<close>) declare
  the same \<^verbatim>\<open>Process\<close> struct. Its \<^verbatim>\<open>uint64_t\<close> fields are 64-bit words: subtraction
  wraps around exactly as in C. \<^verbatim>\<open>int\<close> values that are only compared with zero (process
  identifiers, return values of system calls) are integers; the \<^verbatim>\<open>int\<close> fields of the
  history table, which take part in arithmetic, are 32-bit words read as two's complement.
\<close>

type_synonym u64 = "64 word"
type_synonym cint = "32 word"

record Process =
  command :: string
  finished :: bool
  error :: bool
  started :: bool
  arrival_time :: u64
  start_time :: u64
  context_start_time :: u64
  context_end_time :: u64
  completion_time :: u64
  burst_time :: u64
  turnaround_time :: u64
  waiting_time :: u64
  response_time :: u64
  process_id :: int

text \<open>
  What the scheduler does to the outside world, as far as the properties below need it:
  a diagnostic line it prints, or a signal it sends to a child with \<^verbatim>\<open>kill\<close>. The CSV rows
  and the context-switch lines are copies of record fields and are left out.
\<close>

datatype signal = SIGSTOP | SIGCONT

datatype effect = Printed string | Signalled int signal

text \<open>
  What the operating system answers during one iteration of a scheduling loop. Each field is
  the value returned by one call of that iteration, in program order: the lines read from the
  standard input (online schedulers only), \<^verbatim>\<open>fork\<close>, \<^verbatim>\<open>kill(SIGCONT)\<close>, the clock read of
  the dispatch, \<^verbatim>\<open>waitpid\<close> and the test
  \<^verbatim>\<open>WIFEXITED(status) && WEXITSTATUS(status) == 0\<close> on its status, \<^verbatim>\<open>kill(SIGSTOP)\<close>, the
  clock read that follows the wait, and the two clock reads of the boost check.
  An arrival is the buffer filled by \<^verbatim>\<open>readInput\<close>, the clock read that stamps it and the
  contents of the freshly allocated, uninitialised \<^verbatim>\<open>Process\<close> block.
\<close>

record arrival =
  buf :: string
  t_arrival :: u64
  raw :: Process

record env =
  arrivals :: "arrival list"
  fork_ret :: int
  kill_cont_ret :: int
  t_dispatch :: u64
  wait_ret :: int
  exit_ok :: bool
  kill_stop_ret :: int
  t_after :: u64
  t_boost :: u64
  t_boost2 :: u64

subsection \<open>Process utilities\<close>

text \<open>\<^verbatim>\<open>initializeProcess\<close>: every field but the command is reset, for each of the n records.\<close>

definition initializeOne :: "Process \<Rightarrow> Process" where
  "initializeOne p = p\<lparr>finished := False, error := False, started := False,
     arrival_time := 0, start_time := 0, context_start_time := 0, context_end_time := 0,
     completion_time := 0, burst_time := 0, turnaround_time := 0, waiting_time := 0,
     response_time := 0, process_id := - 1\<rparr>"

definition initializeProcess :: "Process list \<Rightarrow> Process list" where
  "initializeProcess ps = map initializeOne ps"

text \<open>
  \<^verbatim>\<open>executeProcess\<close>, as the scheduler sees it. \<open>pid\<close> is what \<^verbatim>\<open>fork\<close> returned and \<open>now\<close>
  the clock. The branch \<open>pid = 0\<close> runs in the child, which never comes back to the
  scheduling loop (see \<open>childProcess\<close> below); the scheduler's own record is not touched by it.
\<close>

definition executeProcess :: "Process \<Rightarrow> u64 \<Rightarrow> int \<Rightarrow> u64 \<Rightarrow> Process \<times> effect list" where
  "executeProcess p t0 pid now =
     (if pid < 0 then (p, [Printed ''[ERROR]: Fork failed''])
      else if pid = 0 then (p, [])
      else (p\<lparr>process_id := pid, started := True,
               start_time := now - t0, context_start_time := now - t0\<rparr>, []))"

text \<open>\<^verbatim>\<open>pauseProcess\<close> and \<^verbatim>\<open>resumeProcess\<close>; \<open>r\<close> is what \<^verbatim>\<open>kill\<close> returned.\<close>

definition pauseProcess :: "Process \<Rightarrow> u64 \<Rightarrow> int \<Rightarrow> u64 \<Rightarrow> Process \<times> effect list" where
  "pauseProcess p t0 r now =
     (if \<not> started p \<or> finished p then (p, [])
      else (p\<lparr>context_end_time := now - t0,
               burst_time := burst_time p + ((now - t0) - context_start_time p)\<rparr>,
            Signalled (process_id p) SIGSTOP #
              (if r < 0 then [Printed ''[ERROR]: Pausing process failed''] else [])))"

definition resumeProcess :: "Process \<Rightarrow> u64 \<Rightarrow> int \<Rightarrow> u64 \<Rightarrow> Process \<times> effect list" where
  "resumeProcess p t0 r now =
     (if \<not> started p \<or> finished p then (p, [])
      else (p\<lparr>context_start_time := now - t0\<rparr>,
            Signalled (process_id p) SIGCONT #
              (if r < 0 then [Printed ''[ERROR]: Resuming process failed''] else [])))"

subsection \<open>Burst history table\<close>

text \<open>
  A cell of the table is a singly linked list of nodes, newest first; its \<^verbatim>\<open>size\<close> field
  counts the nodes, so the test \<^verbatim>\<open>cell->size == 0\<close> is the test for the empty list.
  The \<^verbatim>\<open>hash\<close> field of a node is never written nor read and is left out.
\<close>

record HashTableNode =
  node_command :: string
  sum_burst_time :: cint
  num_bursts :: cint

type_synonym Cell = "HashTableNode list"

type_synonym HashTable = "Cell list"

definition MOD :: u64 where
  "MOD = 1000000007"

definition HASH_PRIME :: u64 where
  "HASH_PRIME = 131"

definition NUM_CELLS :: nat where
  "NUM_CELLS = 3"

text \<open>A \<^verbatim>\<open>char\<close> of the command, converted to \<^verbatim>\<open>uint64_t\<close>: sign-extended, as on x86-64.\<close>

definition char_u64 :: "char \<Rightarrow> u64" where
  "char_u64 ch = scast (of_char ch :: 8 word)"

text \<open>\<^verbatim>\<open>hashFunction\<close> walks the command from its last character to its first.\<close>

definition hashFunction :: "string \<Rightarrow> u64" where
  "hashFunction cmd = foldr (\<lambda>ch sum. (sum * HASH_PRIME + char_u64 ch) mod MOD) cmd 5147"

text \<open>
  \<^verbatim>\<open>hash % NUM_CELLS\<close>: the hash is below \<open>MOD\<close>, hence unchanged by its conversion
  to \<^verbatim>\<open>int\<close> (lemma \<open>hashFunction_less_MOD\<close>).
\<close>

definition cellIndex :: "string \<Rightarrow> nat" where
  "cellIndex cmd = unat (hashFunction cmd) mod NUM_CELLS"

definition emptyTable :: HashTable where
  "emptyTable = replicate NUM_CELLS []"

fun findInCell :: "Cell \<Rightarrow> string \<Rightarrow> HashTableNode option" where
  "findInCell [] cmd = None"
| "findInCell (n # ns) cmd = (if node_command n = cmd then Some n else findInCell ns cmd)"

definition findNode :: "HashTable \<Rightarrow> string \<Rightarrow> HashTableNode option" where
  "findNode tbl cmd = findInCell (tbl ! cellIndex cmd) cmd"

text \<open>The in-place update of the node that \<^verbatim>\<open>findNode\<close> returned: the first match.\<close>

fun bumpInCell :: "Cell \<Rightarrow> string \<Rightarrow> cint \<Rightarrow> Cell" where
  "bumpInCell [] cmd b = []"
| "bumpInCell (n # ns) cmd b =
     (if node_command n = cmd
      then n\<lparr>sum_burst_time := sum_burst_time n + b, num_bursts := num_bursts n + 1\<rparr> # ns
      else n # bumpInCell ns cmd b)"

text \<open>
  \<^verbatim>\<open>updateBurstTime\<close> takes the burst as an \<^verbatim>\<open>int\<close>; its callers pass the \<^verbatim>\<open>uint64_t\<close>
  field \<^verbatim>\<open>burst_time\<close>, which the call truncates to 32 bits (\<open>ucast\<close>).
\<close>

definition updateBurstTime :: "HashTable \<Rightarrow> cint \<Rightarrow> string \<Rightarrow> HashTable" where
  "updateBurstTime tbl b cmd =
     (case findNode tbl cmd of
        None \<Rightarrow> tbl[cellIndex cmd :=
                  \<lparr>node_command = cmd, sum_burst_time = b, num_bursts = 1\<rparr> # tbl ! cellIndex cmd]
      | Some n \<Rightarrow> tbl[cellIndex cmd := bumpInCell (tbl ! cellIndex cmd) cmd b])"

text \<open>Division of two \<^verbatim>\<open>int\<close>s in C truncates towards zero.\<close>

definition cdiv :: "cint \<Rightarrow> cint \<Rightarrow> cint" where
  "cdiv a b = word_of_int (sint a sdiv sint b)"

text \<open>\<^verbatim>\<open>getExpectedBurstTime\<close>: the \<^verbatim>\<open>int\<close> quotient is returned as \<^verbatim>\<open>uint64_t\<close>.\<close>

definition getExpectedBurstTime :: "HashTable \<Rightarrow> Process \<Rightarrow> u64" where
  "getExpectedBurstTime tbl p =
     (case findNode tbl (command p) of
        None \<Rightarrow> 1000
      | Some n \<Rightarrow> scast (cdiv (sum_burst_time n) (num_bursts n)))"

text \<open>\<^verbatim>\<open>getMLFQIndex\<close>; \<open>Quantum\<close> is the array of the three quanta.\<close>

definition getMLFQIndex :: "int list \<Rightarrow> Process \<Rightarrow> HashTable \<Rightarrow> nat" where
  "getMLFQIndex Quantum p tbl =
     (case findNode tbl (command p) of
        None \<Rightarrow> 1
      | Some n \<Rightarrow>
          (let avgBurstTime = sint (cdiv (sum_burst_time n) (num_bursts n))
           in if avgBurstTime \<le> Quantum ! 0 then 0
              else if avgBurstTime \<le> Quantum ! 1 then 1
              else 2))"

subsection \<open>Queues\<close>

text \<open>
  A queue is the singly linked list of its nodes from head to tail, each holding a reference to
  a process record; a reference is the index of the record in the process table. The \<^verbatim>\<open>size\<close>
  field counts the nodes (\<^verbatim>\<open>enqueue\<close> increments it, \<^verbatim>\<open>dequeue\<close> decrements it when it
  removes a node), so \<^verbatim>\<open>q.size == 0\<close> is the test for the empty list.
\<close>

type_synonym Queue = "nat list"

definition enqueue :: "Queue \<Rightarrow> nat \<Rightarrow> Queue" where
  "enqueue q p = q @ [p]"

definition dequeue :: "Queue \<Rightarrow> nat option \<times> Queue" where
  "dequeue q = (case q of [] \<Rightarrow> (None, q) | p # ps \<Rightarrow> (Some p, ps))"

text \<open>The boost loop: every record dequeued from a lower tier is enqueued in tier 0.\<close>

fun drain :: "Queue \<Rightarrow> Queue \<Rightarrow> Queue \<times> Queue" where
  "drain [] q0 = ([], q0)"
| "drain (p # ps) q0 = drain ps (enqueue q0 p)"

definition boost :: "Queue list \<Rightarrow> Queue list" where
  "boost qs =
     (case drain (qs ! 1) (qs ! 0) of (q1, q0) \<Rightarrow>
        (case drain (qs ! 2) q0 of (q2, q0') \<Rightarrow> [q0', q1, q2]))"

subsection \<open>Terminal transitions\<close>

definition terminal :: "Process \<Rightarrow> bool" where
  "terminal p = (finished p \<or> error p)"

text \<open>
  The branch taken when the child has exited with status zero. The same seven assignments
  appear in \<^verbatim>\<open>RoundRobin\<close> and in both \<^verbatim>\<open>MultiLevelFeedbackQueue\<close> functions; \<open>now\<close>
  is the clock read of the branch.
\<close>

definition markFinished :: "Process \<Rightarrow> u64 \<Rightarrow> u64 \<Rightarrow> Process" where
  "markFinished p t0 now =
     (let p = p\<lparr>finished := True\<rparr>;
          p = p\<lparr>completion_time := now - t0\<rparr>;
          p = p\<lparr>context_end_time := completion_time p\<rparr>;
          p = p\<lparr>burst_time := burst_time p + (context_end_time p - context_start_time p)\<rparr>;
          p = p\<lparr>turnaround_time := completion_time p - arrival_time p\<rparr>;
          p = p\<lparr>waiting_time := turnaround_time p - burst_time p\<rparr>;
          p = p\<lparr>response_time := start_time p - arrival_time p\<rparr>
      in p)"

text \<open>The error branch of \<^verbatim>\<open>RoundRobin\<close> and of both \<^verbatim>\<open>MultiLevelFeedbackQueue\<close> functions.\<close>

definition markError :: "Process \<Rightarrow> u64 \<Rightarrow> u64 \<Rightarrow> Process" where
  "markError p t0 now =
     (let p = p\<lparr>error := True\<rparr>;
          p = p\<lparr>context_end_time := now - t0\<rparr>;
          p = p\<lparr>response_time := start_time p - arrival_time p\<rparr>
      in p)"

text \<open>The two branches of \<^verbatim>\<open>FCFS\<close>.\<close>

definition FCFS_finished :: "Process \<Rightarrow> u64 \<Rightarrow> u64 \<Rightarrow> Process" where
  "FCFS_finished p t0 now =
     (let p = p\<lparr>finished := True\<rparr>;
          p = p\<lparr>completion_time := now - t0\<rparr>;
          p = p\<lparr>context_end_time := completion_time p\<rparr>;
          p = p\<lparr>burst_time := completion_time p - start_time p\<rparr>;
          p = p\<lparr>turnaround_time := completion_time p - arrival_time p\<rparr>;
          p = p\<lparr>waiting_time := turnaround_time p - burst_time p\<rparr>;
          p = p\<lparr>response_time := start_time p - arrival_time p\<rparr>
      in p)"

definition FCFS_error :: "Process \<Rightarrow> u64 \<Rightarrow> u64 \<Rightarrow> Process" where
  "FCFS_error p t0 now =
     (let p = p\<lparr>error := True\<rparr>;
          p = p\<lparr>context_end_time := now - t0\<rparr>;
          p = p\<lparr>burst_time := context_end_time p - context_start_time p\<rparr>;
          p = p\<lparr>response_time := start_time p - arrival_time p\<rparr>
      in p)"

text \<open>The two branches of \<^verbatim>\<open>ShortestJobFirst\<close>.\<close>

definition SJF_finished :: "Process \<Rightarrow> u64 \<Rightarrow> u64 \<Rightarrow> Process" where
  "SJF_finished p t0 now =
     (let p = p\<lparr>finished := True\<rparr>;
          p = p\<lparr>completion_time := now - t0\<rparr>;
          p = p\<lparr>context_end_time := completion_time p\<rparr>;
          p = p\<lparr>burst_time := context_end_time p - context_start_time p\<rparr>;
          p = p\<lparr>turnaround_time := completion_time p - arrival_time p\<rparr>;
          p = p\<lparr>waiting_time := turnaround_time p - burst_time p\<rparr>;
          p = p\<lparr>response_time := start_time p - arrival_time p\<rparr>
      in p)"

definition SJF_error :: "Process \<Rightarrow> u64 \<Rightarrow> u64 \<Rightarrow> Process" where
  "SJF_error p t0 now =
     (let p = p\<lparr>error := True\<rparr>;
          p = p\<lparr>context_end_time := now - t0\<rparr>;
          p = p\<lparr>burst_time := context_end_time p - context_start_time p\<rparr>;
          p = p\<lparr>response_time := start_time p - arrival_time p\<rparr>
      in p)"

text \<open>
  The dispatch of the preemptive schedulers: a record that has not started is forked, any
  other is resumed.
\<close>

definition dispatch :: "Process \<Rightarrow> u64 \<Rightarrow> env \<Rightarrow> Process \<times> effect list" where
  "dispatch p t0 e =
     (if \<not> started p then executeProcess p t0 (fork_ret e) (t_dispatch e)
      else resumeProcess p t0 (kill_cont_ret e) (t_dispatch e))"

text \<open>
  What follows the non-blocking \<^verbatim>\<open>waitpid\<close> of the preemptive schedulers when it did not
  fail: the record is paused (result 0) or closed (result positive). The second component
  tells whether the record left the system.
\<close>

definition afterQuantum :: "Process \<Rightarrow> u64 \<Rightarrow> env \<Rightarrow> (Process \<times> effect list) \<times> bool" where
  "afterQuantum p t0 e =
     (if wait_ret e = 0 then (pauseProcess p t0 (kill_stop_ret e) (t_after e), False)
      else if exit_ok e then ((markFinished p t0 (t_after e), []), True)
      else ((markError p t0 (t_after e), [Printed ''Error in process'']), True))"

section \<open>Offline schedulers\<close>

text \<open>
  Every scheduling loop is a step function applied once per iteration to the loop's local
  variables, and a run is the fold of that step over the answers of the operating system, one
  \<open>env\<close> per iteration. A loop that has ended (condition false, or \<^verbatim>\<open>break\<close>) ignores the
  answers that remain. \<open>t0\<close> is the clock read at the start of the scheduler. The quanta of
  round robin and of the offline MLFQ only set the length of the sleep between the dispatch
  and the poll; the elapsed time is what the clock reads say, so the quanta are no parameters
  of these two models.
\<close>

subsection \<open>FCFS\<close>

record fcfs_state =
  fcfs_p :: "Process list"
  fcfs_i :: nat
  fcfs_out :: "effect list"

definition FCFS_body :: "u64 \<Rightarrow> env \<Rightarrow> Process \<Rightarrow> Process \<times> effect list" where
  "FCFS_body t0 e p =
     (case executeProcess p t0 (fork_ret e) (t_dispatch e) of (p1, fx) \<Rightarrow>
        if wait_ret e < 0 then (p1, fx @ [Printed ''[ERROR]: Waitpid failed''])
        else if exit_ok e then (FCFS_finished p1 t0 (t_after e), fx)
        else (FCFS_error p1 t0 (t_after e), fx @ [Printed ''Error in process'']))"

definition FCFS_step :: "u64 \<Rightarrow> env \<Rightarrow> fcfs_state \<Rightarrow> fcfs_state" where
  "FCFS_step t0 e s =
     (if fcfs_i s < length (fcfs_p s)
      then (case FCFS_body t0 e (fcfs_p s ! fcfs_i s) of (p', fx) \<Rightarrow>
              s\<lparr>fcfs_p := (fcfs_p s)[fcfs_i s := p'],
                fcfs_i := fcfs_i s + 1,
                fcfs_out := fcfs_out s @ fx\<rparr>)
      else s)"

definition FCFS_init :: "Process list \<Rightarrow> fcfs_state" where
  "FCFS_init p = \<lparr>fcfs_p = initializeProcess p, fcfs_i = 0, fcfs_out = []\<rparr>"

definition FCFS :: "u64 \<Rightarrow> env list \<Rightarrow> Process list \<Rightarrow> fcfs_state" where
  "FCFS t0 es p = foldl (\<lambda>s e. FCFS_step t0 e s) (FCFS_init p) es"

subsection \<open>Round robin\<close>

record rr_state =
  rr_p :: "Process list"
  rr_i :: nat
  rr_remaining :: int
  rr_stopped :: bool
  rr_out :: "effect list"

definition RR_step :: "u64 \<Rightarrow> env \<Rightarrow> rr_state \<Rightarrow> rr_state" where
  "RR_step t0 e s =
     (if rr_stopped s \<or> \<not> 0 < rr_remaining s then s
      else
        let i = rr_i s; n = length (rr_p s); p = rr_p s ! i in
        if finished p \<or> error p then s\<lparr>rr_i := (i + 1) mod n\<rparr>
        else (case dispatch p t0 e of (p1, fx1) \<Rightarrow>
          if wait_ret e < 0
          then s\<lparr>rr_p := (rr_p s)[i := p1], rr_stopped := True,
                 rr_out := rr_out s @ fx1 @ [Printed ''[ERROR]: Waitpid failed'']\<rparr>
          else (case afterQuantum p1 t0 e of ((p2, fx2), gone) \<Rightarrow>
            s\<lparr>rr_p := (rr_p s)[i := p2],
              rr_i := (i + 1) mod n,
              rr_remaining := (if gone then rr_remaining s - 1 else rr_remaining s),
              rr_out := rr_out s @ fx1 @ fx2\<rparr>)))"

definition RR_init :: "Process list \<Rightarrow> rr_state" where
  "RR_init p = \<lparr>rr_p = initializeProcess p, rr_i = 0, rr_remaining = int (length p),
                 rr_stopped = False, rr_out = []\<rparr>"

definition RoundRobin :: "u64 \<Rightarrow> env list \<Rightarrow> Process list \<Rightarrow> rr_state" where
  "RoundRobin t0 es p = foldl (\<lambda>s e. RR_step t0 e s) (RR_init p) es"

subsection \<open>Offline MLFQ\<close>

record mlfq_state =
  mlfq_p :: "Process list"
  mlfq_queues :: "Queue list"
  mlfq_current_queue :: nat
  mlfq_remaining :: int
  mlfq_last_boost_time :: u64
  mlfq_stopped :: bool
  mlfq_out :: "effect list"

text \<open>
  The boost check at the end of an iteration; \<open>boostTime\<close> is an \<^verbatim>\<open>int\<close> compared with a
  \<^verbatim>\<open>uint64_t\<close> difference, hence converted to \<^verbatim>\<open>uint64_t\<close>.
\<close>

definition boostCheck :: "int \<Rightarrow> env \<Rightarrow> Queue list \<times> u64 \<Rightarrow> Queue list \<times> u64" where
  "boostCheck boostTime e ql =
     (case ql of (qs, last_boost_time) \<Rightarrow>
        if word_of_int boostTime \<le> t_boost e - last_boost_time
        then (boost qs, t_boost2 e)
        else (qs, last_boost_time))"

definition MLFQ_step :: "int \<Rightarrow> u64 \<Rightarrow> env \<Rightarrow> mlfq_state \<Rightarrow> mlfq_state" where
  "MLFQ_step boostTime t0 e s =
     (if mlfq_stopped s \<or> \<not> 0 < mlfq_remaining s then s
      else
        let cq = mlfq_current_queue s in
        (case dequeue (mlfq_queues s ! cq) of
           (None, q') \<Rightarrow> s\<lparr>mlfq_current_queue := (cq + 1) mod 3\<rparr>
         | (Some i, q') \<Rightarrow>
             let qs = (mlfq_queues s)[cq := q']; p = mlfq_p s ! i in
             if finished p \<or> error p then s\<lparr>mlfq_queues := qs\<rparr>
             else (case dispatch p t0 e of (p1, fx1) \<Rightarrow>
               if wait_ret e < 0
               then s\<lparr>mlfq_p := (mlfq_p s)[i := p1], mlfq_queues := qs, mlfq_stopped := True,
                      mlfq_out := mlfq_out s @ fx1 @ [Printed ''[ERROR]: Waitpid failed'']\<rparr>
               else (case afterQuantum p1 t0 e of ((p2, fx2), gone) \<Rightarrow>
                 let qs2 = (if gone then qs
                            else if cq < 2 then qs[cq + 1 := enqueue (qs ! (cq + 1)) i]
                            else qs[cq := enqueue (qs ! cq) i])
                 in (case boostCheck boostTime e (qs2, mlfq_last_boost_time s) of (qs3, lb) \<Rightarrow>
                   s\<lparr>mlfq_p := (mlfq_p s)[i := p2],
                     mlfq_queues := qs3,
                     mlfq_last_boost_time := lb,
                     mlfq_remaining := (if gone then mlfq_remaining s - 1 else mlfq_remaining s),
                     mlfq_out := mlfq_out s @ fx1 @ fx2\<rparr>)))))"

text \<open>All records are enqueued in the high priority queue, in array order.\<close>

definition MLFQ_init :: "u64 \<Rightarrow> Process list \<Rightarrow> mlfq_state" where
  "MLFQ_init t0 p =
     \<lparr>mlfq_p = initializeProcess p,
      mlfq_queues = [foldl enqueue [] [0 ..< length p], [], []],
      mlfq_current_queue = 0,
      mlfq_remaining = int (length p),
      mlfq_last_boost_time = t0,
      mlfq_stopped = False,
      mlfq_out = []\<rparr>"

definition MultiLevelFeedbackQueue_offline ::
    "int \<Rightarrow> u64 \<Rightarrow> env list \<Rightarrow> Process list \<Rightarrow> mlfq_state" where
  "MultiLevelFeedbackQueue_offline boostTime t0 es p =
     foldl (\<lambda>s e. MLFQ_step boostTime t0 e s) (MLFQ_init t0 p) es"

section \<open>Online schedulers\<close>

text \<open>
  A record created for an input line: the command is the buffer without its last character
  (the newline), the arrival time is stamped, the flags and the four durations are cleared.
  The other timestamps keep whatever the allocated block contained.
\<close>

definition newProcess :: "u64 \<Rightarrow> arrival \<Rightarrow> Process" where
  "newProcess t0 a =
     (raw a)\<lparr>command := butlast (buf a),
             arrival_time := t_arrival a - t0,
             finished := False, error := False, started := False,
             process_id := - 1,
             burst_time := 0, turnaround_time := 0, waiting_time := 0, response_time := 0\<rparr>"

subsection \<open>Shortest job first\<close>

record sjf_state =
  sjf_p :: "Process list"
  sjf_table :: HashTable
  sjf_remaining :: int
  sjf_out :: "effect list"

text \<open>The inner \<^verbatim>\<open>while (readInput(...))\<close> loop: one record appended per line read.\<close>

fun SJF_ingest :: "u64 \<Rightarrow> arrival list \<Rightarrow> sjf_state \<Rightarrow> sjf_state" where
  "SJF_ingest t0 [] s = s"
| "SJF_ingest t0 (a # as) s =
     SJF_ingest t0 as (s\<lparr>sjf_p := sjf_p s @ [newProcess t0 a],
                           sjf_remaining := sjf_remaining s + 1\<rparr>)"

text \<open>
  The selection loop over \<^verbatim>\<open>processList\<close>: \<open>i\<close> is the index of the head of the list that
  remains to be scanned, the pair is \<^verbatim>\<open>(minIndex, minBurstTime)\<close>.
\<close>

fun sjfScan :: "HashTable \<Rightarrow> Process list \<Rightarrow> nat \<Rightarrow> int \<times> u64 \<Rightarrow> int \<times> u64" where
  "sjfScan tbl [] i acc = acc"
| "sjfScan tbl (p # ps) i (minIndex, minBurstTime) =
     (if finished p \<or> error p then sjfScan tbl ps (Suc i) (minIndex, minBurstTime)
      else
        let expectedBurstTime = getExpectedBurstTime tbl p in
        if expectedBurstTime < minBurstTime
        then sjfScan tbl ps (Suc i) (int i, expectedBurstTime)
        else sjfScan tbl ps (Suc i) (minIndex, minBurstTime))"

definition sjfSelect :: "HashTable \<Rightarrow> Process list \<Rightarrow> int" where
  "sjfSelect tbl ps = fst (sjfScan tbl ps 0 (- 1, 1000000000))"

text \<open>The rest of an iteration of the outer loop, after the input has been drained.\<close>

definition SJF_round :: "u64 \<Rightarrow> env \<Rightarrow> sjf_state \<Rightarrow> sjf_state" where
  "SJF_round t0 e s =
     (if sjf_remaining s = 0 then s
      else
        let minIndex = sjfSelect (sjf_table s) (sjf_p s) in
        if minIndex = - 1 then s\<lparr>sjf_out := sjf_out s @ [Printed ''No process found'']\<rparr>
        else
          let k = nat minIndex in
          (case executeProcess (sjf_p s ! k) t0 (fork_ret e) (t_dispatch e) of (p1, fx) \<Rightarrow>
             if wait_ret e < 0
             then s\<lparr>sjf_p := (sjf_p s)[k := p1],
                    sjf_out := sjf_out s @ fx @ [Printed ''[ERROR]: Waitpid failed'']\<rparr>
             else if exit_ok e
             then (let p2 = SJF_finished p1 t0 (t_after e) in
                   s\<lparr>sjf_p := (sjf_p s)[k := p2],
                     sjf_table := updateBurstTime (sjf_table s) (ucast (burst_time p2)) (command p2),
                     sjf_remaining := sjf_remaining s - 1,
                     sjf_out := sjf_out s @ fx\<rparr>)
             else s\<lparr>sjf_p := (sjf_p s)[k := SJF_error p1 t0 (t_after e)],
                    sjf_remaining := sjf_remaining s - 1,
                    sjf_out := sjf_out s @ fx\<rparr>))"

definition SJF_step :: "u64 \<Rightarrow> env \<Rightarrow> sjf_state \<Rightarrow> sjf_state" where
  "SJF_step t0 e s = SJF_round t0 e (SJF_ingest t0 (arrivals e) s)"

definition SJF_init :: sjf_state where
  "SJF_init = \<lparr>sjf_p = [], sjf_table = emptyTable, sjf_remaining = 0, sjf_out = []\<rparr>"

definition ShortestJobFirst :: "u64 \<Rightarrow> env list \<Rightarrow> sjf_state" where
  "ShortestJobFirst t0 es = foldl (\<lambda>s e. SJF_step t0 e s) SJF_init es"

subsection \<open>Online MLFQ\<close>

text \<open>
  The records of the online MLFQ are allocated one by one and referenced from the queues
  only; \<open>omlfq_p\<close> is the store of all records allocated so far, in allocation order.
\<close>

record omlfq_state =
  omlfq_p :: "Process list"
  omlfq_queues :: "Queue list"
  omlfq_table :: HashTable
  omlfq_remaining :: int
  omlfq_last_boost_time :: u64
  omlfq_out :: "effect list"

fun OMLFQ_ingest :: "int list \<Rightarrow> u64 \<Rightarrow> arrival list \<Rightarrow> omlfq_state \<Rightarrow> omlfq_state" where
  "OMLFQ_ingest Quantum t0 [] s = s"
| "OMLFQ_ingest Quantum t0 (a # as) s =
     (let p = newProcess t0 a;
          index = getMLFQIndex Quantum p (omlfq_table s)
      in OMLFQ_ingest Quantum t0 as
           (s\<lparr>omlfq_p := omlfq_p s @ [p],
              omlfq_queues := (omlfq_queues s)[index := enqueue (omlfq_queues s ! index) (length (omlfq_p s))],
              omlfq_remaining := omlfq_remaining s + 1\<rparr>))"

text \<open>The \<^verbatim>\<open>for\<close> loop over the tiers stops at the first queue that is not empty.\<close>

fun firstNonEmpty :: "Queue list \<Rightarrow> nat \<Rightarrow> nat option" where
  "firstNonEmpty [] i = None"
| "firstNonEmpty (q # qs) i = (if q = [] then firstNonEmpty qs (Suc i) else Some i)"

definition OMLFQ_slice :: "u64 \<Rightarrow> env \<Rightarrow> omlfq_state \<Rightarrow> omlfq_state" where
  "OMLFQ_slice t0 e s =
     (case firstNonEmpty (omlfq_queues s) 0 of
        None \<Rightarrow> s
      | Some i \<Rightarrow>
          (case dequeue (omlfq_queues s ! i) of
             (None, q') \<Rightarrow> s
           | (Some k, q') \<Rightarrow>
               let qs = (omlfq_queues s)[i := q'] in
               (case dispatch (omlfq_p s ! k) t0 e of (p1, fx1) \<Rightarrow>
                  if wait_ret e < 0
                  then s\<lparr>omlfq_p := (omlfq_p s)[k := p1], omlfq_queues := qs,
                         omlfq_out := omlfq_out s @ fx1 @ [Printed ''[ERROR]: Waitpid failed'']\<rparr>
                  else if wait_ret e = 0
                  then (case pauseProcess p1 t0 (kill_stop_ret e) (t_after e) of (p2, fx2) \<Rightarrow>
                          s\<lparr>omlfq_p := (omlfq_p s)[k := p2],
                            omlfq_queues := (if i < 2 then qs[i + 1 := enqueue (qs ! (i + 1)) k]
                                             else qs[i := enqueue (qs ! i) k]),
                            omlfq_out := omlfq_out s @ fx1 @ fx2\<rparr>)
                  else if exit_ok e
                  then (let p2 = markFinished p1 t0 (t_after e) in
                        s\<lparr>omlfq_p := (omlfq_p s)[k := p2], omlfq_queues := qs,
                          omlfq_table := updateBurstTime (omlfq_table s) (ucast (burst_time p2)) (command p2),
                          omlfq_remaining := omlfq_remaining s - 1,
                          omlfq_out := omlfq_out s @ fx1\<rparr>)
                  else s\<lparr>omlfq_p := (omlfq_p s)[k := markError p1 t0 (t_after e)], omlfq_queues := qs,
                         omlfq_remaining := omlfq_remaining s - 1,
                         omlfq_out := omlfq_out s @ fx1\<rparr>)))"

definition OMLFQ_round :: "int \<Rightarrow> u64 \<Rightarrow> env \<Rightarrow> omlfq_state \<Rightarrow> omlfq_state" where
  "OMLFQ_round boostTime t0 e s =
     (if omlfq_remaining s = 0 then s
      else
        let s1 = OMLFQ_slice t0 e s in
        (case boostCheck boostTime e (omlfq_queues s1, omlfq_last_boost_time s1) of (qs, lb) \<Rightarrow>
           s1\<lparr>omlfq_queues := qs, omlfq_last_boost_time := lb\<rparr>))"

definition OMLFQ_step :: "int list \<Rightarrow> int \<Rightarrow> u64 \<Rightarrow> env \<Rightarrow> omlfq_state \<Rightarrow> omlfq_state" where
  "OMLFQ_step Quantum boostTime t0 e s =
     OMLFQ_round boostTime t0 e (OMLFQ_ingest Quantum t0 (arrivals e) s)"

definition OMLFQ_init :: "u64 \<Rightarrow> omlfq_state" where
  "OMLFQ_init t0 =
     \<lparr>omlfq_p = [], omlfq_queues = [[], [], []], omlfq_table = emptyTable,
      omlfq_remaining = 0, omlfq_last_boost_time = t0, omlfq_out = []\<rparr>"

definition MultiLevelFeedbackQueue_online ::
    "int \<Rightarrow> int \<Rightarrow> int \<Rightarrow> int \<Rightarrow> u64 \<Rightarrow> env list \<Rightarrow> omlfq_state" where
  "MultiLevelFeedbackQueue_online quantum0 quantum1 quantum2 boostTime t0 es =
     foldl (\<lambda>s e. OMLFQ_step [quantum0, quantum1, quantum2] boostTime t0 e s) (OMLFQ_init t0) es"

section \<open>The child process\<close>

text \<open>
  \<^verbatim>\<open>parseCommand\<close> splits the command at blanks and tabs. The loop state is the capacity of
  the current token, the capacity of the token array, the current token and the tokens
  closed so far. \<open>rok\<close> tells whether \<^verbatim>\<open>realloc\<close> succeeds, \<open>cok\<close> whether the initial
  \<^verbatim>\<open>calloc\<close> does; a failed allocation is the only way to the result \<^verbatim>\<open>NULL\<close>.
\<close>

fun parseLoop ::
    "bool \<Rightarrow> string \<Rightarrow> nat \<Rightarrow> nat \<Rightarrow> string \<Rightarrow> string list \<Rightarrow> (nat \<times> nat \<times> string \<times> string list) option" where
  "parseLoop rok [] curTokenSize tokensSize token tokens =
     Some (curTokenSize, tokensSize, token, tokens)"
| "parseLoop rok (c # cs) curTokenSize tokensSize token tokens =
     (if curTokenSize \<le> length token \<and> \<not> rok then None
      else if tokensSize \<le> length tokens \<and> \<not> rok then None
      else
        let cts = (if curTokenSize \<le> length token then curTokenSize * 2 else curTokenSize);
            ts = (if tokensSize \<le> length tokens then tokensSize * 2 else tokensSize)
        in if c = CHR '' '' \<or> c = CHR 0x09
           then (if token = [] then parseLoop rok cs cts ts token tokens
                 else parseLoop rok cs 16 ts [] (tokens @ [token]))
           else parseLoop rok cs cts ts (token @ [c]) tokens)"

definition parseCommand :: "bool \<Rightarrow> bool \<Rightarrow> string \<Rightarrow> string list option" where
  "parseCommand cok rok input =
     (if \<not> cok then None
      else (case parseLoop rok input 16 8 [] [] of
              None \<Rightarrow> None
            | Some (curTokenSize, tokensSize, token, tokens) \<Rightarrow>
                if token \<noteq> [] \<and> curTokenSize \<le> length token \<and> \<not> rok then None
                else
                  let tokens' = (if token \<noteq> [] then tokens @ [token] else tokens)
                  in if tokensSize \<le> length tokens' \<and> \<not> rok then None else Some tokens'))"

text \<open>
  How a child ends, as \<^verbatim>\<open>waitpid\<close> reports it: it exited with a code, or a signal killed it.
  The scheduler's test \<^verbatim>\<open>WIFEXITED(status) && WEXITSTATUS(status) == 0\<close> is \<open>status_ok\<close>.
\<close>

datatype child_status = Exited nat | KilledBySignal

definition status_ok :: "child_status \<Rightarrow> bool" where
  "status_ok st = (st = Exited 0)"

text \<open>
  The child branch of \<^verbatim>\<open>executeProcess\<close>. \<open>programs file argv\<close> is \<open>None\<close> when
  \<^verbatim>\<open>execvp\<close> fails and returns, and otherwise the way the program that replaced the child
  ended. With no token at all, \<^verbatim>\<open>tokens[0]\<close> is the null pointer and no program can be loaded:
  \<^verbatim>\<open>execvp\<close> either returns an error or faults on the null path (\<open>null_faults\<close>).
\<close>

definition childProcess ::
    "(string \<Rightarrow> string list \<Rightarrow> child_status option) \<Rightarrow> bool \<Rightarrow> bool \<Rightarrow> bool \<Rightarrow> Process \<Rightarrow> child_status" where
  "childProcess programs null_faults cok rok p =
     (case parseCommand cok rok (command p) of
        None \<Rightarrow> Exited 0
      | Some [] \<Rightarrow> (if null_faults then KilledBySignal else Exited 1)
      | Some (file # args) \<Rightarrow>
          (case programs file (file # args) of
             None \<Rightarrow> Exited 1
           | Some st \<Rightarrow> st))"

section \<open>Predicates used to state the properties\<close>

text \<open>The three equations between the timing fields of a record.\<close>

definition metrics_ok :: "Process \<Rightarrow> bool" where
  "metrics_ok p =
     (turnaround_time p = completion_time p - arrival_time p \<and>
      waiting_time p = turnaround_time p - burst_time p \<and>
      response_time p = start_time p - arrival_time p)"

text \<open>
  A record is well accounted when its two flags exclude each other, the three equations
  hold once it has finished, and the response time is final once it has failed.
\<close>

definition good :: "Process \<Rightarrow> bool" where
  "good p =
     (\<not> (finished p \<and> error p) \<and>
      (finished p \<longrightarrow> metrics_ok p) \<and>
      (error p \<longrightarrow> response_time p = start_time p - arrival_time p))"

text \<open>
  \<open>moved p p'\<close>: what one loop iteration may do to the record it runs. The command and
  the arrival time stay, the result is well accounted, and the turnaround and completion
  times are either final or untouched.
\<close>

definition moved :: "Process \<Rightarrow> Process \<Rightarrow> bool" where
  "moved p p' =
     (command p' = command p \<and> arrival_time p' = arrival_time p \<and> good p' \<and>
      (turnaround_time p' = completion_time p' - arrival_time p' \<or>
       turnaround_time p' = turnaround_time p \<and> completion_time p' = completion_time p))"

text \<open>
  \<open>evolves ps ps'\<close>: the process table \<open>ps'\<close> comes from \<open>ps\<close> by loop iterations. No
  record disappears; a record is either unchanged, or it was not terminal (or did not exist
  yet) and has been moved.
\<close>

definition evolves :: "Process list \<Rightarrow> Process list \<Rightarrow> bool" where
  "evolves ps ps' =
     (length ps \<le> length ps' \<and>
      (\<forall>j < length ps'.
         (j < length ps \<and> ps' ! j = ps ! j) \<or>
         (\<exists>p. \<not> terminal p \<and> (j < length ps \<longrightarrow> p = ps ! j) \<and> moved p (ps' ! j))))"

text \<open>In \<^verbatim>\<open>FCFS\<close> the records from the loop index on have not been run yet.\<close>

definition fcfs_inv :: "fcfs_state \<Rightarrow> bool" where
  "fcfs_inv s = (\<forall>j. fcfs_i s \<le> j \<and> j < length (fcfs_p s) \<longrightarrow> \<not> terminal (fcfs_p s ! j))"

text \<open>
  In the online MLFQ the three queues never hold a record twice, and every record they hold
  exists and is not terminal.
\<close>

definition omlfq_inv :: "omlfq_state \<Rightarrow> bool" where
  "omlfq_inv s =
     (length (omlfq_queues s) = 3 \<and>
      distinct (concat (omlfq_queues s)) \<and>
      (\<forall>k \<in> set (concat (omlfq_queues s)). k < length (omlfq_p s) \<and> \<not> terminal (omlfq_p s ! k)))"

text \<open>
  What is recorded for a record that has left the system: the three equations if it finished,
  the response time if it failed.
\<close>

definition accounted :: "Process \<Rightarrow> bool" where
  "accounted p =
     ((finished p \<longrightarrow> metrics_ok p) \<and>
      (error p \<longrightarrow> response_time p = start_time p - arrival_time p))"

text \<open>
  \<open>settled ps ps'\<close> relates the process table at some point of a run to the table at a later
  point: no record has both flags set, and a record that was terminal is still there, unchanged.
\<close>

definition settled :: "Process list \<Rightarrow> Process list \<Rightarrow> bool" where
  "settled ps ps' =
     (\<forall>j < length ps.
        \<not> (finished (ps ! j) \<and> error (ps ! j)) \<and>
        (finished (ps ! j) \<or> error (ps ! j) \<longrightarrow> j < length ps' \<and> ps' ! j = ps ! j))"

text \<open>What the offline schedulers guarantee for a record, arrival time being zero.\<close>

definition offline_ok :: "Process \<Rightarrow> bool" where
  "offline_ok p =
     (arrival_time p = 0 \<and>
      (finished p \<or> error p \<longrightarrow>
         turnaround_time p = completion_time p \<and> response_time p = start_time p))"

text \<open>
  The tier of a new arrival in the spec's words: tier 1 without history, otherwise tier 0 when
  the predicted burst is at most the first quantum, else tier 1 when it is at most the second,
  else tier 2. The predicted burst of a command is the quotient kept by its table entry.
\<close>

definition spec_tier :: "int \<Rightarrow> int \<Rightarrow> int option \<Rightarrow> nat" where
  "spec_tier quantum0 quantum1 predicted =
     (case predicted of
        None \<Rightarrow> 1
      | Some b \<Rightarrow> if b \<le> quantum0 then 0 else if b \<le> quantum1 then 1 else 2)"

definition predictedBurst :: "HashTable \<Rightarrow> string \<Rightarrow> int option" where
  "predictedBurst tbl cmd =
     map_option (\<lambda>n. sint (cdiv (sum_burst_time n) (num_bursts n))) (findNode tbl cmd)"

text \<open>
  \<open>error_frame now p p'\<close>: the record \<open>p\<close> has been closed in error at time \<open>now\<close> and
  nothing but the error flag, the context-end time and the response time was finalized; the
  iteration's dispatch may have stamped the start. \<open>error_frame_burst\<close> is the variant in
  which the burst is overwritten with the length of the last slice.
\<close>

definition error_frame :: "u64 \<Rightarrow> Process \<Rightarrow> Process \<Rightarrow> bool" where
  "error_frame now p p' =
     (error p' \<and> \<not> finished p' \<and>
      context_end_time p' = now \<and>
      response_time p' = start_time p' - arrival_time p' \<and>
      burst_time p' = burst_time p \<and>
      turnaround_time p' = turnaround_time p \<and>
      waiting_time p' = waiting_time p \<and>
      completion_time p' = completion_time p \<and>
      arrival_time p' = arrival_time p \<and>
      command p' = command p)"

definition error_frame_burst :: "u64 \<Rightarrow> Process \<Rightarrow> Process \<Rightarrow> bool" where
  "error_frame_burst now p p' =
     (error p' \<and> \<not> finished p' \<and>
      context_end_time p' = now \<and>
      response_time p' = start_time p' - arrival_time p' \<and>
      burst_time p' = context_end_time p' - context_start_time p' \<and>
      turnaround_time p' = turnaround_time p \<and>
      waiting_time p' = waiting_time p \<and>
      completion_time p' = completion_time p \<and>
      arrival_time p' = arrival_time p \<and>
      command p' = command p)"

text \<open>
  The bursts of the records of a process table that have finished a run of a given command, and
  the agreement of a history table with a process table: the table has an entry exactly for the
  commands with a finished record, holding the sum and the number of their bursts (in the
  \<^verbatim>\<open>int\<close> arithmetic of the two fields).
\<close>

definition finishedBursts :: "string \<Rightarrow> Process list \<Rightarrow> u64 list" where
  "finishedBursts cmd ps = map burst_time (filter (\<lambda>q. finished q \<and> command q = cmd) ps)"

definition table_agrees :: "Process list \<Rightarrow> HashTable \<Rightarrow> bool" where
  "table_agrees ps tbl =
     (length tbl = NUM_CELLS \<and>
      (\<forall>cmd. findNode tbl cmd =
         (if finishedBursts cmd ps = [] then None
          else Some \<lparr>node_command = cmd,
                     sum_burst_time = sum_list (map ucast (finishedBursts cmd ps)),
                     num_bursts = of_nat (length (finishedBursts cmd ps))\<rparr>)))"

subsection \<open>Sample inputs\<close>

text \<open>
  A record as a caller may pass it, an arrival, and the answers of the operating system for
  one iteration: the result of \<^verbatim>\<open>fork\<close>, the clock at dispatch, the result of \<^verbatim>\<open>waitpid\<close>,
  whether the child exited with status zero, and the clock after the wait.
\<close>

definition sampleProcess :: "string \<Rightarrow> Process" where
  "sampleProcess cmd =
     \<lparr>command = cmd, finished = False, error = False, started = False,
      arrival_time = 0, start_time = 0, context_start_time = 0, context_end_time = 0,
      completion_time = 0, burst_time = 0, turnaround_time = 0, waiting_time = 0,
      response_time = 0, process_id = 0\<rparr>"

definition sampleArrival :: "string \<Rightarrow> u64 \<Rightarrow> arrival" where
  "sampleArrival line t = \<lparr>buf = line, t_arrival = t, raw = sampleProcess []\<rparr>"

definition sampleEnv :: "arrival list \<Rightarrow> int \<Rightarrow> u64 \<Rightarrow> int \<Rightarrow> bool \<Rightarrow> u64 \<Rightarrow> env" where
  "sampleEnv as pid t1 w ok t2 =
     \<lparr>arrivals = as, fork_ret = pid, kill_cont_ret = 0, t_dispatch = t1, wait_ret = w,
      exit_ok = ok, kill_stop_ret = 0, t_after = t2, t_boost = t2, t_boost2 = t2\<rparr>"

text \<open>
  A run of the online SJF scheduler in which the only command, \<^verbatim>\<open>a\<close>, arrives at time 0, is
  forked at once and exits with status zero after \<open>2\<^sup>3\<^sup>1\<close> milliseconds.
\<close>

definition overflowRun :: sjf_state where
  "overflowRun = ShortestJobFirst 0 [sampleEnv [sampleArrival ''a\<newline>'' 0] 7 0 7 True 2147483648]"

text \<open>
  Offline runs on one record: the child exits with a nonzero status 7 ms after it started
  (\<open>failedRun\<close>, under FCFS), or with status zero (\<open>finishedRun\<close>).
\<close>

definition failedRun :: fcfs_state where
  "failedRun = FCFS 100 [sampleEnv [] 7 105 7 False 112] [sampleProcess ''false'']"

definition finishedRun :: fcfs_state where
  "finishedRun = FCFS 100 [sampleEnv [] 7 105 7 True 112] [sampleProcess ''true'']"

text \<open>
  The record of a round robin run on one command whose child, forked at 5 ms, has exited with a
  nonzero status at 12 ms.
\<close>

definition erroredRecord :: Process where
  "erroredRecord = rr_p (RoundRobin 100 [sampleEnv [] 7 105 7 False 112] [sampleProcess ''false'']) ! 0"

text \<open>
  A run of the online SJF scheduler: the command \<^verbatim>\<open>a\<close> arrives, runs and exits with status zero
  after \<open>10\<^sup>9\<close> milliseconds; then \<^verbatim>\<open>a\<close> arrives again.
\<close>

definition starvedRun :: sjf_state where
  "starvedRun = ShortestJobFirst 0
     [sampleEnv [sampleArrival ''a\<newline>'' 0] 7 0 7 True 1000000000,
      sampleEnv [sampleArrival ''a\<newline>'' 1000000000] 8 1000000001 8 True 1000000005]"


text \<open>
  The state of the online MLFQ, with quanta 20, 40 and 80 ms, once the command \<^verbatim>\<open>a\<close> has
  completed a first run of 10 ms.
\<close>

definition warmState :: omlfq_state where
  "warmState = MultiLevelFeedbackQueue_online 20 40 80 500 0
     [sampleEnv [sampleArrival ''a\<newline>'' 0] 7 0 7 True 10]"

text \<open>
  A run of the online SJF scheduler in which \<^verbatim>\<open>ls\<close> completes in 30 ms, then \<^verbatim>\<open>pwd\<close> in 5 ms,
  then \<^verbatim>\<open>ls\<close> again in 51 ms.
\<close>

definition threeRuns :: sjf_state where
  "threeRuns = ShortestJobFirst 0
     [sampleEnv [sampleArrival ''ls\<newline>'' 0] 7 0 7 True 30,
      sampleEnv [sampleArrival ''pwd\<newline>'' 31] 8 31 8 True 36,
      sampleEnv [sampleArrival ''ls\<newline>'' 37] 9 37 9 True 88]"

text \<open>
  States in which one record is about to be run: the command \<^verbatim>\<open>false\<close> as the only record of
  each offline scheduler and as the only arrival of each online scheduler, and a round robin
  state in which that record has been paused after a first slice of 7 ms. The two answers of
  the operating system are a child that exited with a nonzero status and a failed \<^verbatim>\<open>waitpid\<close>.
\<close>

definition pendingFCFS :: fcfs_state where
  "pendingFCFS = FCFS_init [sampleProcess ''false'']"

definition pendingRR :: rr_state where
  "pendingRR = RR_init [sampleProcess ''false'']"

definition pausedRR :: rr_state where
  "pausedRR = RoundRobin 100 [sampleEnv [] 7 105 0 False 112] [sampleProcess ''false'']"

definition pendingMLFQ :: mlfq_state where
  "pendingMLFQ = MLFQ_init 100 [sampleProcess ''false'']"

definition pendingSJF :: sjf_state where
  "pendingSJF = SJF_ingest 100 [sampleArrival ''false\<newline>'' 101] SJF_init"

definition pendingOMLFQ :: omlfq_state where
  "pendingOMLFQ = OMLFQ_ingest [20, 40, 80] 100 [sampleArrival ''false\<newline>'' 101] (OMLFQ_init 100)"

definition exitBad :: env where
  "exitBad = sampleEnv [] 7 120 7 False 131"


section \<open>The burst history table\<close>

lemma hashFunction_less_MOD: "hashFunction cmd < MOD \<and> unat (hashFunction cmd) < 2 ^ 31"
proof -
  have "hashFunction cmd < MOD"
  proof (cases cmd)
    case Nil
    then show ?thesis by (simp add: hashFunction_def MOD_def)
  next
    case (Cons c cs)
    have "MOD \<noteq> 0" by (simp add: MOD_def)
    then have "x mod MOD < MOD" for x
      by (simp add: word_mod_less_divisor word_neq_0_conv)
    then show ?thesis by (simp add: hashFunction_def Cons)
  qed
  moreover have "unat MOD < 2 ^ 31" by (simp add: MOD_def)
  ultimately show ?thesis by (meson order_less_trans unat_mono)
qed

lemma cellIndex_less: "cellIndex cmd < NUM_CELLS"
  by (simp add: cellIndex_def NUM_CELLS_def)

lemma findInCell_bump:
  "findInCell (bumpInCell ns cmd b) cmd' =
     (if cmd' = cmd
      then map_option (\<lambda>n. n\<lparr>sum_burst_time := sum_burst_time n + b, num_bursts := num_bursts n + 1\<rparr>)
             (findInCell ns cmd)
      else findInCell ns cmd')"
  by (induction ns) auto

lemma length_updateBurstTime [simp]: "length (updateBurstTime tbl b cmd) = length tbl"
  by (simp add: updateBurstTime_def split: option.splits)

lemma findNode_updateBurstTime:
  assumes "length tbl = NUM_CELLS"
  shows "findNode (updateBurstTime tbl b cmd) cmd' =
     (if cmd' = cmd
      then Some (case findNode tbl cmd of
                   None \<Rightarrow> \<lparr>node_command = cmd, sum_burst_time = b, num_bursts = 1\<rparr>
                 | Some n \<Rightarrow> n\<lparr>sum_burst_time := sum_burst_time n + b, num_bursts := num_bursts n + 1\<rparr>)
      else findNode tbl cmd')"
proof -
  have k: "cellIndex cmd < length tbl" "cellIndex cmd' < length tbl"
    using assms cellIndex_less by simp_all
  show ?thesis
  proof (cases "findNode tbl cmd")
    case None
    then show ?thesis using k
      by (auto simp: findNode_def updateBurstTime_def nth_list_update)
  next
    case (Some n)
    then show ?thesis using k
      by (auto simp: findNode_def updateBurstTime_def nth_list_update findInCell_bump)
  qed
qed

lemma findNode_emptyTable: "findNode emptyTable cmd = None"
  using cellIndex_less [of cmd] by (simp add: findNode_def emptyTable_def)

lemma sum_list_ucast: "(sum_list (map ucast (bs :: u64 list)) :: cint) = word_of_nat (sum_list (map unat bs))"
  by (induction bs) (simp_all add: of_nat_unat)

lemma sint_small: "n < 2 ^ 31 \<Longrightarrow> sint (word_of_nat n :: cint) = int n"
proof -
  assume "n < 2 ^ 31"
  then have "int n < 2 ^ 31" by (metis of_nat_less_numeral_power_cancel_iff)
  moreover have "- (2 ^ 31) \<le> int n" by simp
  ultimately have "signed_take_bit 31 (int n) = int n"
    by (rule signed_take_bit_int_eq_self [rotated])
  moreover have "(word_of_nat n :: cint) = word_of_int (int n)" by simp
  ultimately show ?thesis by (simp only: sint_sbintrunc') simp
qed

lemma sdiv_nonneg: "0 \<le> k \<Longrightarrow> 0 < l \<Longrightarrow> (k::int) sdiv l = k div l"
  by (cases "k = 0") (simp_all add: signed_divide_int_def)

lemma unat_scast_small:
  assumes "0 \<le> q" "q < 2 ^ 31"
  shows "unat (scast (word_of_int q :: cint) :: u64) = nat q"
proof -
  have "signed_take_bit 31 q = q"
    using assms by (simp add: signed_take_bit_int_eq_self)
  then have "sint (word_of_int q :: cint) = q" by (simp add: sint_sbintrunc')
  then have "(scast (word_of_int q :: cint) :: u64) = word_of_int q"
    by (metis of_int_sint)
  moreover have "unat (word_of_int q :: u64) = nat q"
  proof -
    have "q < 2 ^ 64" using assms by simp
    then show ?thesis using assms(1)
      by (simp add: unat_eq_nat_uint uint_word_of_int take_bit_eq_mod)
  qed
  ultimately show ?thesis by simp
qed

lemma estimate_value:
  assumes "bs \<noteq> []" "sum_list (map unat bs) < 2 ^ 31" "length bs < 2 ^ 31"
  shows "unat (scast (cdiv (sum_list (map ucast (bs :: u64 list))) (of_nat (length bs))) :: u64)
           = sum_list (map unat bs) div length bs"
proof -
  let ?S = "sum_list (map unat bs)" and ?n = "length bs"
  have n: "0 < ?n" using assms(1) by simp
  have q: "int ?S sdiv int ?n = int (?S div ?n)"
    using n by (simp add: sdiv_nonneg zdiv_int)
  have "?S div ?n \<le> ?S" by simp
  then have b: "int (?S div ?n) < 2 ^ 31" using assms(2)
    by (metis le_less_trans of_nat_less_numeral_power_cancel_iff)
  have "cdiv (sum_list (map ucast bs)) (of_nat ?n) = word_of_int (int (?S div ?n))"
    by (simp only: cdiv_def sum_list_ucast sint_small [OF assms(2)] sint_small [OF assms(3)] q)
  then show ?thesis using unat_scast_small [OF _ b] by simp
qed

subsection \<open>Evaluation of sample runs\<close>

lemmas sample_defs = sampleEnv_def sampleArrival_def sampleProcess_def

lemmas table_defs = getExpectedBurstTime_def findNode_def emptyTable_def NUM_CELLS_def
  cellIndex_def hashFunction_def MOD_def HASH_PRIME_def char_u64_def updateBurstTime_def
  cdiv_def signed_divide_int_def

lemmas sjf_defs = ShortestJobFirst_def SJF_step_def SJF_round_def SJF_init_def newProcess_def
  sjfSelect_def executeProcess_def SJF_finished_def SJF_error_def Let_def

lemmas fcfs_defs = FCFS_def FCFS_init_def FCFS_step_def FCFS_body_def initializeProcess_def
  initializeOne_def executeProcess_def FCFS_finished_def FCFS_error_def Let_def

lemmas rr_defs = RoundRobin_def RR_init_def RR_step_def initializeProcess_def initializeOne_def
  dispatch_def afterQuantum_def executeProcess_def resumeProcess_def pauseProcess_def
  markFinished_def markError_def Let_def

section \<open>What a loop iteration does to the process table\<close>

lemma moved_refl: "\<not> terminal p \<Longrightarrow> moved p p"
  by (simp add: moved_def good_def terminal_def)

lemma moved_dispatch: "\<not> terminal p \<Longrightarrow> moved p (fst (dispatch p t0 e))"
  by (simp add: moved_def good_def terminal_def dispatch_def executeProcess_def resumeProcess_def)

lemma dispatch_not_terminal: "\<not> terminal p \<Longrightarrow> \<not> terminal (fst (dispatch p t0 e))"
  by (simp add: terminal_def dispatch_def executeProcess_def resumeProcess_def)

lemma dispatch_keeps:
  "command (fst (dispatch p t0 e)) = command p"
  "arrival_time (fst (dispatch p t0 e)) = arrival_time p"
  "turnaround_time (fst (dispatch p t0 e)) = turnaround_time p"
  "completion_time (fst (dispatch p t0 e)) = completion_time p"
  "burst_time (fst (dispatch p t0 e)) = burst_time p"
  "waiting_time (fst (dispatch p t0 e)) = waiting_time p"
  "finished (fst (dispatch p t0 e)) = finished p"
  "error (fst (dispatch p t0 e)) = error p"
  by (simp_all add: dispatch_def executeProcess_def resumeProcess_def)

lemma moved_afterQuantum:
  "\<not> terminal p \<Longrightarrow> moved p (fst (fst (afterQuantum p t0 e)))"
  by (simp add: moved_def good_def terminal_def metrics_ok_def afterQuantum_def pauseProcess_def
      markFinished_def markError_def Let_def)

lemma moved_trans_dispatch:
  "\<not> terminal p \<Longrightarrow> moved p (fst (fst (afterQuantum (fst (dispatch p t0 e)) t0 e)))"
  using moved_afterQuantum [OF dispatch_not_terminal, of p t0 e t0 e]
  by (auto simp: moved_def dispatch_keeps)

lemma moved_FCFS_body: "\<not> terminal p \<Longrightarrow> moved p (fst (FCFS_body t0 e p))"
  by (simp add: moved_def good_def terminal_def metrics_ok_def FCFS_body_def executeProcess_def
      FCFS_finished_def FCFS_error_def Let_def)

lemma evolves_refl: "evolves ps ps"
  by (simp add: evolves_def)

lemma evolves_update:
  "\<not> terminal (ps ! i) \<Longrightarrow> moved (ps ! i) p' \<Longrightarrow> evolves ps (ps[i := p'])"
proof -
  assume a: "\<not> terminal (ps ! i)" "moved (ps ! i) p'"
  have "(j < length ps \<and> ps[i := p'] ! j = ps ! j) \<or>
        (\<exists>p. \<not> terminal p \<and> (j < length ps \<longrightarrow> p = ps ! j) \<and> moved p (ps[i := p'] ! j))"
    if "j < length ps" for j
  proof (cases "j = i")
    case True
    then show ?thesis using a that by auto
  next
    case False
    then show ?thesis using that by simp
  qed
  then show ?thesis by (simp add: evolves_def)
qed

lemma evolves_good:
  assumes "evolves ps ps'" "\<forall>j < length ps. good (ps ! j)" "j < length ps'"
  shows "good (ps' ! j)"
  using assms unfolding evolves_def moved_def by metis

lemma evolves_frozen:
  assumes "evolves ps ps'" "j < length ps" "terminal (ps ! j)"
  shows "ps' ! j = ps ! j"
  using assms unfolding evolves_def by (metis order_less_le_trans)

lemma moved_trans:
  assumes "moved p q" "moved q r"
  shows "moved p r"
  using assms unfolding moved_def by auto

lemma evolves_trans:
  assumes "evolves ps qs" "evolves qs rs"
  shows "evolves ps rs"
proof -
  have len: "length ps \<le> length qs" "length qs \<le> length rs"
    using assms by (simp_all add: evolves_def)
  have "(j < length ps \<and> rs ! j = ps ! j) \<or>
        (\<exists>p. \<not> terminal p \<and> (j < length ps \<longrightarrow> p = ps ! j) \<and> moved p (rs ! j))"
    if j: "j < length rs" for j
  proof -
    from assms(2) j consider (same) "j < length qs" "rs ! j = qs ! j"
      | (mv) q where "\<not> terminal q" "j < length qs \<longrightarrow> q = qs ! j" "moved q (rs ! j)"
      unfolding evolves_def by blast
    then show ?thesis
    proof cases
      case same
      then show ?thesis using assms(1) unfolding evolves_def by metis
    next
      case mv
      show ?thesis
      proof (cases "j < length qs")
        case True
        then have q: "q = qs ! j" using mv by simp
        from assms(1) True consider (same1) "j < length ps" "qs ! j = ps ! j"
          | (mv1) p where "\<not> terminal p" "j < length ps \<longrightarrow> p = ps ! j" "moved p (qs ! j)"
          unfolding evolves_def by blast
        then show ?thesis
        proof cases
          case same1
          then show ?thesis using mv q by auto
        next
          case mv1
          then show ?thesis using mv q moved_trans by blast
        qed
      next
        case False
        then have "\<not> j < length ps" using len by simp
        then show ?thesis using mv by auto
      qed
    qed
  qed
  then show ?thesis using len by (simp add: evolves_def)
qed

lemma evolves_append: "\<forall>p \<in> set qs. \<not> terminal p \<Longrightarrow> evolves ps (ps @ qs)"
proof -
  assume a: "\<forall>p \<in> set qs. \<not> terminal p"
  have "\<exists>p. \<not> terminal p \<and> (j < length ps \<longrightarrow> p = ps ! j) \<and> moved p ((ps @ qs) ! j)"
    if "j < length (ps @ qs)" "\<not> j < length ps" for j
  proof -
    have "qs ! (j - length ps) \<in> set qs" using that by simp
    then have "\<not> terminal (qs ! (j - length ps))" using a by blast
    then show ?thesis using that moved_refl by (auto simp: nth_append)
  qed
  then show ?thesis unfolding evolves_def by (auto simp: nth_append)
qed

subsection \<open>FCFS\<close>

lemma FCFS_step_evolves:
  assumes "fcfs_inv s"
  shows "evolves (fcfs_p s) (fcfs_p (FCFS_step t0 e s))"
proof (cases "fcfs_i s < length (fcfs_p s)")
  case True
  then have nt: "\<not> terminal (fcfs_p s ! fcfs_i s)" using assms by (simp add: fcfs_inv_def)
  have "fcfs_p (FCFS_step t0 e s) = (fcfs_p s)[fcfs_i s := fst (FCFS_body t0 e (fcfs_p s ! fcfs_i s))]"
    using True by (simp add: FCFS_step_def split: prod.splits)
  then show ?thesis using evolves_update [OF nt moved_FCFS_body [OF nt]] by simp
next
  case False
  then show ?thesis by (simp add: FCFS_step_def evolves_refl)
qed

lemma FCFS_step_inv:
  assumes "fcfs_inv s"
  shows "fcfs_inv (FCFS_step t0 e s)"
  using assms by (auto simp: fcfs_inv_def FCFS_step_def split: prod.splits)

lemma FCFS_init_inv: "fcfs_inv (FCFS_init ps)"
  by (simp add: fcfs_inv_def FCFS_init_def initializeProcess_def initializeOne_def terminal_def)

lemma FCFS_run_inv: "fcfs_inv s \<Longrightarrow> fcfs_inv (foldl (\<lambda>s e. FCFS_step t0 e s) s es)"
  by (induction es arbitrary: s) (simp_all add: FCFS_step_inv)

lemma FCFS_run_evolves:
  "fcfs_inv s \<Longrightarrow> evolves (fcfs_p s) (fcfs_p (foldl (\<lambda>s e. FCFS_step t0 e s) s es))"
proof (induction es arbitrary: s)
  case Nil
  then show ?case by (simp add: evolves_refl)
next
  case (Cons e es)
  show ?case
    using evolves_trans [OF FCFS_step_evolves [OF Cons.prems] Cons.IH [OF FCFS_step_inv [OF Cons.prems]]]
    by simp
qed

subsection \<open>Round robin\<close>

lemma RR_step_evolves: "evolves (rr_p s) (rr_p (RR_step t0 e s))"
proof -
  let ?p = "rr_p s ! rr_i s"
  show ?thesis
  proof (cases "rr_stopped s \<or> \<not> 0 < rr_remaining s \<or> terminal ?p")
    case True
    then show ?thesis
      by (auto simp: RR_step_def Let_def terminal_def evolves_refl)
  next
    case False
    then have nt: "\<not> terminal ?p" by simp
    have "rr_p (RR_step t0 e s) = (rr_p s)[rr_i s := fst (dispatch ?p t0 e)] \<or>
          rr_p (RR_step t0 e s) = (rr_p s)[rr_i s := fst (fst (afterQuantum (fst (dispatch ?p t0 e)) t0 e))]"
      using False by (auto simp: RR_step_def Let_def terminal_def split: prod.splits)
    then show ?thesis
      using evolves_update [OF nt moved_dispatch [OF nt]] evolves_update [OF nt moved_trans_dispatch [OF nt]]
      by metis
  qed
qed

lemma RR_run_evolves: "evolves (rr_p s) (rr_p (foldl (\<lambda>s e. RR_step t0 e s) s es))"
proof (induction es arbitrary: s)
  case Nil
  then show ?case by (simp add: evolves_refl)
next
  case (Cons e es)
  show ?case using evolves_trans [OF RR_step_evolves Cons.IH] by simp
qed

subsection \<open>Offline MLFQ\<close>

lemma MLFQ_step_evolves: "evolves (mlfq_p s) (mlfq_p (MLFQ_step boostTime t0 e s))"
proof (cases "mlfq_stopped s \<or> \<not> 0 < mlfq_remaining s")
  case True
  then show ?thesis by (auto simp: MLFQ_step_def evolves_refl)
next
  case active: False
  show ?thesis
  proof (cases "dequeue (mlfq_queues s ! mlfq_current_queue s)")
    case (Pair r q')
    show ?thesis
    proof (cases r)
      case None
      then show ?thesis using active Pair by (simp add: MLFQ_step_def Let_def evolves_refl)
    next
      case (Some i)
      let ?p = "mlfq_p s ! i"
      show ?thesis
      proof (cases "terminal ?p")
        case True
        then show ?thesis using active Pair Some
          by (simp add: MLFQ_step_def Let_def evolves_refl terminal_def)
      next
        case nt: False
        have "mlfq_p (MLFQ_step boostTime t0 e s) = (mlfq_p s)[i := fst (dispatch ?p t0 e)] \<or>
              mlfq_p (MLFQ_step boostTime t0 e s) =
                (mlfq_p s)[i := fst (fst (afterQuantum (fst (dispatch ?p t0 e)) t0 e))]"
          using active Pair Some nt
          by (auto simp: MLFQ_step_def Let_def terminal_def split: prod.splits)
        then show ?thesis
          using evolves_update [OF nt moved_dispatch [OF nt]]
            evolves_update [OF nt moved_trans_dispatch [OF nt]]
          by metis
      qed
    qed
  qed
qed

lemma MLFQ_run_evolves:
  "evolves (mlfq_p s) (mlfq_p (foldl (\<lambda>s e. MLFQ_step boostTime t0 e s) s es))"
proof (induction es arbitrary: s)
  case Nil
  then show ?case by (simp add: evolves_refl)
next
  case (Cons e es)
  show ?case using evolves_trans [OF MLFQ_step_evolves Cons.IH] by simp
qed

subsection \<open>Online SJF\<close>

lemma newProcess_not_terminal: "\<not> terminal (newProcess t0 a)"
  by (simp add: newProcess_def terminal_def)

lemma SJF_ingest_p: "sjf_p (SJF_ingest t0 as s) = sjf_p s @ map (newProcess t0) as"
  by (induction as arbitrary: s) simp_all

lemma SJF_ingest_table: "sjf_table (SJF_ingest t0 as s) = sjf_table s"
  by (induction as arbitrary: s) simp_all

lemma SJF_ingest_evolves: "evolves (sjf_p s) (sjf_p (SJF_ingest t0 as s))"
  by (simp add: SJF_ingest_p evolves_append newProcess_not_terminal)

lemma sjfScan_spec:
  "sjfScan tbl ps i (mi, mb) = (mi', mb') \<Longrightarrow>
     (if \<exists>j < length ps. \<not> terminal (ps ! j) \<and> getExpectedBurstTime tbl (ps ! j) < mb
      then \<exists>j < length ps. mi' = int (i + j) \<and> \<not> terminal (ps ! j) \<and>
             mb' = getExpectedBurstTime tbl (ps ! j) \<and> mb' < mb \<and>
             (\<forall>l < length ps. \<not> terminal (ps ! l) \<longrightarrow> mb' \<le> getExpectedBurstTime tbl (ps ! l)) \<and>
             (\<forall>l < j. \<not> terminal (ps ! l) \<longrightarrow> mb' < getExpectedBurstTime tbl (ps ! l))
      else mi' = mi \<and> mb' = mb)"
proof (induction ps arbitrary: i mi mb)
  case Nil
  then show ?case by simp
next
  case (Cons p ps)
  let ?est = "\<lambda>q. getExpectedBurstTime tbl q"
  let ?cand = "\<lambda>qs b. \<exists>j < length qs. \<not> terminal (qs ! j) \<and> ?est (qs ! j) < b"
  let ?res = "\<lambda>qs k b j. j < length qs \<and> mi' = int (k + j) \<and> \<not> terminal (qs ! j) \<and>
             mb' = ?est (qs ! j) \<and> mb' < b \<and>
             (\<forall>l < length qs. \<not> terminal (qs ! l) \<longrightarrow> mb' \<le> ?est (qs ! l)) \<and>
             (\<forall>l < j. \<not> terminal (qs ! l) \<longrightarrow> mb' < ?est (qs ! l))"
  have shift: "?cand (p # ps) b = ((\<not> terminal p \<and> ?est p < b) \<or> ?cand ps b)" for b
    by (auto simp: less_Suc_eq_0_disj)
  consider (skip) "terminal p" | (take) "\<not> terminal p" "?est p < mb" | (leave) "\<not> terminal p" "\<not> ?est p < mb"
    by blast
  then show ?case
  proof cases
    case skip
    then have run: "sjfScan tbl ps (Suc i) (mi, mb) = (mi', mb')"
      using Cons.prems by (simp add: terminal_def)
    note ih = Cons.IH [OF run]
    show ?thesis
    proof (cases "?cand ps mb")
      case True
      then obtain j where j: "?res ps (Suc i) mb j" using ih by auto
      then have "?res (p # ps) i mb (Suc j)" using skip
        by (auto simp: less_Suc_eq_0_disj)
      moreover have "?cand (p # ps) mb" using True shift by blast
      ultimately show ?thesis by (auto simp del: length_Cons nth_Cons_Suc)
    next
      case False
      then have "\<not> ?cand (p # ps) mb" using skip shift by blast
      moreover have "mi' = mi \<and> mb' = mb" using ih False by auto
      ultimately show ?thesis by (auto simp del: length_Cons)
    qed
  next
    case take
    then have run: "sjfScan tbl ps (Suc i) (int i, ?est p) = (mi', mb')"
      using Cons.prems by (simp add: terminal_def Let_def)
    note ih = Cons.IH [OF run]
    have c: "?cand (p # ps) mb" using take shift by blast
    show ?thesis
    proof (cases "?cand ps (?est p)")
      case True
      then obtain j where j: "?res ps (Suc i) (?est p) j" using ih by auto
      then have "?res (p # ps) i mb (Suc j)" using take
        by (auto simp: less_Suc_eq_0_disj)
      then show ?thesis using c by (auto simp del: length_Cons nth_Cons_Suc)
    next
      case False
      then have "mi' = int i \<and> mb' = ?est p" using ih by auto
      moreover have "\<forall>l < length ps. \<not> terminal (ps ! l) \<longrightarrow> ?est p \<le> ?est (ps ! l)"
        using False by (meson not_le)
      ultimately have "?res (p # ps) i mb 0" using take
        by (auto simp: less_Suc_eq_0_disj)
      then show ?thesis using c by (auto simp del: length_Cons)
    qed
  next
    case leave
    then have run: "sjfScan tbl ps (Suc i) (mi, mb) = (mi', mb')"
      using Cons.prems by (simp add: terminal_def Let_def)
    note ih = Cons.IH [OF run]
    show ?thesis
    proof (cases "?cand ps mb")
      case True
      then obtain j where j: "?res ps (Suc i) mb j" using ih by auto
      then have "?res (p # ps) i mb (Suc j)" using leave
        by (auto simp: less_Suc_eq_0_disj)
      moreover have "?cand (p # ps) mb" using True shift by blast
      ultimately show ?thesis by (auto simp del: length_Cons nth_Cons_Suc)
    next
      case False
      then have "\<not> ?cand (p # ps) mb" using leave shift by blast
      moreover have "mi' = mi \<and> mb' = mb" using ih False by auto
      ultimately show ?thesis by (auto simp del: length_Cons)
    qed
  qed
qed

lemma sjfSelect_spec:
  "(if \<exists>j < length ps. \<not> terminal (ps ! j) \<and> getExpectedBurstTime tbl (ps ! j) < 1000000000
    then \<exists>k < length ps. sjfSelect tbl ps = int k \<and> \<not> terminal (ps ! k) \<and>
           getExpectedBurstTime tbl (ps ! k) < 1000000000 \<and>
           (\<forall>l < length ps. \<not> terminal (ps ! l) \<longrightarrow>
              getExpectedBurstTime tbl (ps ! k) \<le> getExpectedBurstTime tbl (ps ! l)) \<and>
           (\<forall>l < k. \<not> terminal (ps ! l) \<longrightarrow>
              getExpectedBurstTime tbl (ps ! k) < getExpectedBurstTime tbl (ps ! l))
    else sjfSelect tbl ps = - 1)"
proof -
  obtain mi' mb' where r: "sjfScan tbl ps 0 (- 1, 1000000000) = (mi', mb')"
    by (cases "sjfScan tbl ps 0 (- 1, 1000000000)") auto
  have sel: "sjfSelect tbl ps = mi'" using r by (simp add: sjfSelect_def)
  show ?thesis
  proof (cases "\<exists>j < length ps. \<not> terminal (ps ! j) \<and> getExpectedBurstTime tbl (ps ! j) < 1000000000")
    case True
    then obtain k where "k < length ps" "mi' = int (0 + k)" "\<not> terminal (ps ! k)"
        "mb' = getExpectedBurstTime tbl (ps ! k)" "mb' < 1000000000"
        "\<forall>l < length ps. \<not> terminal (ps ! l) \<longrightarrow> mb' \<le> getExpectedBurstTime tbl (ps ! l)"
        "\<forall>l < k. \<not> terminal (ps ! l) \<longrightarrow> mb' < getExpectedBurstTime tbl (ps ! l)"
      using sjfScan_spec [OF r] by (simp only: if_True) blast
    then have "k < length ps \<and> sjfSelect tbl ps = int k \<and> \<not> terminal (ps ! k) \<and>
           getExpectedBurstTime tbl (ps ! k) < 1000000000 \<and>
           (\<forall>l < length ps. \<not> terminal (ps ! l) \<longrightarrow>
              getExpectedBurstTime tbl (ps ! k) \<le> getExpectedBurstTime tbl (ps ! l)) \<and>
           (\<forall>l < k. \<not> terminal (ps ! l) \<longrightarrow>
              getExpectedBurstTime tbl (ps ! k) < getExpectedBurstTime tbl (ps ! l))"
      using sel by simp
    then show ?thesis using True by (simp only: if_True) blast
  next
    case False
    then have "mi' = - 1" using sjfScan_spec [OF r] by (simp only: if_False)
    then show ?thesis using False sel by (simp only: if_False)
  qed
qed

lemma sjfSelect_valid:
  assumes "sjfSelect tbl ps \<noteq> - 1"
  shows "nat (sjfSelect tbl ps) < length ps \<and> \<not> terminal (ps ! nat (sjfSelect tbl ps)) \<and>
         0 \<le> sjfSelect tbl ps"
  using sjfSelect_spec [of ps tbl] assms by (auto split: if_splits)

lemma moved_SJF:
  assumes "\<not> terminal p"
  shows "moved p (fst (executeProcess p t0 pid now))"
    and "moved p (SJF_finished (fst (executeProcess p t0 pid now)) t0 now')"
    and "moved p (SJF_error (fst (executeProcess p t0 pid now)) t0 now')"
  using assms
  by (simp_all add: moved_def good_def terminal_def metrics_ok_def executeProcess_def
      SJF_finished_def SJF_error_def Let_def)

lemma SJF_round_evolves: "evolves (sjf_p s) (sjf_p (SJF_round t0 e s))"
proof (cases "sjf_remaining s = 0 \<or> sjfSelect (sjf_table s) (sjf_p s) = - 1")
  case True
  then show ?thesis by (auto simp: SJF_round_def Let_def evolves_refl)
next
  case False
  let ?k = "nat (sjfSelect (sjf_table s) (sjf_p s))"
  let ?p = "sjf_p s ! ?k"
  have nt: "\<not> terminal ?p" using False sjfSelect_valid by blast
  let ?p1 = "fst (executeProcess ?p t0 (fork_ret e) (t_dispatch e))"
  have "sjf_p (SJF_round t0 e s) = (sjf_p s)[?k := ?p1] \<or>
        sjf_p (SJF_round t0 e s) = (sjf_p s)[?k := SJF_finished ?p1 t0 (t_after e)] \<or>
        sjf_p (SJF_round t0 e s) = (sjf_p s)[?k := SJF_error ?p1 t0 (t_after e)]"
    using False by (auto simp: SJF_round_def Let_def split: prod.splits)
  then show ?thesis
    using evolves_update [OF nt moved_SJF(1) [OF nt]] evolves_update [OF nt moved_SJF(2) [OF nt]]
      evolves_update [OF nt moved_SJF(3) [OF nt]]
    by metis
qed

lemma SJF_step_evolves: "evolves (sjf_p s) (sjf_p (SJF_step t0 e s))"
  unfolding SJF_step_def using evolves_trans [OF SJF_ingest_evolves SJF_round_evolves] .

lemma SJF_run_evolves: "evolves (sjf_p s) (sjf_p (foldl (\<lambda>s e. SJF_step t0 e s) s es))"
proof (induction es arbitrary: s)
  case Nil
  then show ?case by (simp add: evolves_refl)
next
  case (Cons e es)
  show ?case using evolves_trans [OF SJF_step_evolves Cons.IH] by simp
qed

subsection \<open>Online MLFQ\<close>

lemma drain_eq: "drain src q0 = ([], q0 @ src)"
  by (induction src arbitrary: q0) (simp_all add: enqueue_def)

lemma boost3: "boost [a, b, c] = [a @ b @ c, [], []]"
  by (simp add: boost_def drain_eq)

lemma three: "length qs = 3 \<Longrightarrow> \<exists>a b c. qs = [a, b, c]"
  by (cases qs; cases "tl qs"; cases "tl (tl qs)") auto

lemma getMLFQIndex_less: "getMLFQIndex Quantum p tbl < 3"
  by (simp add: getMLFQIndex_def Let_def split: option.splits)

lemma firstNonEmpty3:
  "firstNonEmpty [a, b, c] 0 = Some i \<Longrightarrow>
     (i = 0 \<and> a \<noteq> []) \<or> (i = 1 \<and> a = [] \<and> b \<noteq> []) \<or> (i = 2 \<and> a = [] \<and> b = [] \<and> c \<noteq> [])"
  by (auto split: if_splits)

lemma boostCheck_inv:
  assumes "length qs = 3" "boostCheck boostTime e (qs, lb) = (qs', lb')"
  shows "length qs' = 3 \<and> set (concat qs') = set (concat qs) \<and> (distinct (concat qs) \<longrightarrow> distinct (concat qs'))"
proof -
  obtain a b c where q: "qs = [a, b, c]" using three [OF assms(1)] by blast
  show ?thesis using assms(2) unfolding q
    by (auto simp: boostCheck_def boost3 split: if_splits)
qed

lemma OMLFQ_ingest_one_inv:
  assumes "omlfq_inv s"
  shows "omlfq_inv (OMLFQ_ingest Quantum t0 [a] s)"
proof -
  obtain q0 q1 q2 where q: "omlfq_queues s = [q0, q1, q2]"
    using assms three unfolding omlfq_inv_def by blast
  let ?i = "getMLFQIndex Quantum (newProcess t0 a) (omlfq_table s)"
  have "?i < 3" by (rule getMLFQIndex_less)
  then consider "?i = 0" | "?i = 1" | "?i = 2" by linarith
  then show ?thesis
  proof cases
    case 1
    then show ?thesis using assms q newProcess_not_terminal [of t0 a]
      by (auto simp: omlfq_inv_def Let_def enqueue_def nth_append less_Suc_eq)
  next
    case 2
    then show ?thesis using assms q newProcess_not_terminal [of t0 a]
      by (auto simp: omlfq_inv_def Let_def enqueue_def nth_append less_Suc_eq)
  next
    case 3
    then show ?thesis using assms q newProcess_not_terminal [of t0 a]
      by (auto simp: omlfq_inv_def Let_def enqueue_def nth_append less_Suc_eq)
  qed
qed

lemma OMLFQ_ingest_Cons:
  "OMLFQ_ingest Quantum t0 (a # as) s = OMLFQ_ingest Quantum t0 as (OMLFQ_ingest Quantum t0 [a] s)"
  by (simp add: Let_def)

lemma OMLFQ_ingest_inv: "omlfq_inv s \<Longrightarrow> omlfq_inv (OMLFQ_ingest Quantum t0 as s)"
proof (induction as arbitrary: s)
  case Nil
  then show ?case by simp
next
  case (Cons a as)
  show ?case
    using Cons.IH [OF OMLFQ_ingest_one_inv [OF Cons.prems]] OMLFQ_ingest_Cons [of Quantum t0 a as s]
    by simp
qed

lemma OMLFQ_ingest_p: "omlfq_p (OMLFQ_ingest Quantum t0 as s) = omlfq_p s @ map (newProcess t0) as"
  by (induction as arbitrary: s) (simp_all add: Let_def)

lemma OMLFQ_ingest_table: "omlfq_table (OMLFQ_ingest Quantum t0 as s) = omlfq_table s"
  by (induction as arbitrary: s) (simp_all add: Let_def)

lemma OMLFQ_ingest_evolves: "evolves (omlfq_p s) (omlfq_p (OMLFQ_ingest Quantum t0 as s))"
  by (simp add: OMLFQ_ingest_p evolves_append newProcess_not_terminal)


lemma moved_slice:
  assumes "\<not> terminal p"
  shows "moved p (fst (pauseProcess (fst (dispatch p t0 e)) t0 r now))"
    and "moved p (markFinished (fst (dispatch p t0 e)) t0 now)"
    and "moved p (markError (fst (dispatch p t0 e)) t0 now)"
    and "\<not> terminal (fst (pauseProcess (fst (dispatch p t0 e)) t0 r now))"
    and "terminal (markFinished (fst (dispatch p t0 e)) t0 now)"
    and "terminal (markError (fst (dispatch p t0 e)) t0 now)"
  using assms
  by (simp_all add: moved_def good_def terminal_def metrics_ok_def dispatch_def executeProcess_def
      resumeProcess_def pauseProcess_def markFinished_def markError_def Let_def)

lemma OMLFQ_slice_p:
  assumes "firstNonEmpty (omlfq_queues s) 0 = Some i" "omlfq_queues s ! i = k # rest"
  shows "omlfq_p (OMLFQ_slice t0 e s) = (omlfq_p s)[k := fst (dispatch (omlfq_p s ! k) t0 e)] \<or>
         omlfq_p (OMLFQ_slice t0 e s) = (omlfq_p s)[k := fst (pauseProcess (fst (dispatch (omlfq_p s ! k) t0 e)) t0 (kill_stop_ret e) (t_after e))] \<or>
         omlfq_p (OMLFQ_slice t0 e s) = (omlfq_p s)[k := markFinished (fst (dispatch (omlfq_p s ! k) t0 e)) t0 (t_after e)] \<or>
         omlfq_p (OMLFQ_slice t0 e s) = (omlfq_p s)[k := markError (fst (dispatch (omlfq_p s ! k) t0 e)) t0 (t_after e)]"
  using assms by (auto simp: OMLFQ_slice_def dequeue_def Let_def split: prod.splits)

lemma OMLFQ_slice_evolves:
  assumes "omlfq_inv s"
  shows "evolves (omlfq_p s) (omlfq_p (OMLFQ_slice t0 e s))"
proof (cases "firstNonEmpty (omlfq_queues s) 0")
  case None
  then show ?thesis by (simp add: OMLFQ_slice_def evolves_refl)
next
  case (Some i)
  obtain q0 q1 q2 where q: "omlfq_queues s = [q0, q1, q2]"
    using assms three unfolding omlfq_inv_def by blast
  have "i < 3 \<and> omlfq_queues s ! i \<noteq> []"
    using firstNonEmpty3 [of q0 q1 q2 i] Some q by auto
  then obtain k rest where kr: "omlfq_queues s ! i = k # rest" and i: "i < 3"
    by (auto simp: neq_Nil_conv)
  have "i < length (omlfq_queues s)" using i q by simp
  then have "omlfq_queues s ! i \<in> set (omlfq_queues s)" by (rule nth_mem)
  then have "k \<in> set (concat (omlfq_queues s))"
    using kr by (metis list.set_intros(1) set_concat UN_I)
  then have nt: "\<not> terminal (omlfq_p s ! k)" using assms unfolding omlfq_inv_def by blast
  show ?thesis
    using OMLFQ_slice_p [OF Some kr, of t0 e] evolves_update [OF nt moved_dispatch [OF nt]]
      evolves_update [OF nt moved_slice(1) [OF nt]] evolves_update [OF nt moved_slice(2) [OF nt]]
      evolves_update [OF nt moved_slice(3) [OF nt]]
    by metis
qed


lemma OMLFQ_slice_shape:
  assumes "firstNonEmpty (omlfq_queues s) 0 = Some i" "omlfq_queues s ! i = k # rest"
    and nt: "\<not> terminal (omlfq_p s ! k)"
  shows "\<exists>p'. omlfq_p (OMLFQ_slice t0 e s) = (omlfq_p s)[k := p'] \<and>
           (omlfq_queues (OMLFQ_slice t0 e s) = (omlfq_queues s)[i := rest] \<and>
              (p' = fst (dispatch (omlfq_p s ! k) t0 e) \<or> terminal p')
            \<or>
            \<not> terminal p' \<and>
            omlfq_queues (OMLFQ_slice t0 e s) =
              (if i < 2 then (omlfq_queues s)[i := rest, i + 1 := enqueue ((omlfq_queues s)[i := rest] ! (i + 1)) k]
               else (omlfq_queues s)[i := rest, i := enqueue ((omlfq_queues s)[i := rest] ! i) k]))"
proof -
  let ?p = "omlfq_p s ! k"
  let ?p1 = "fst (dispatch ?p t0 e)"
  have t: "terminal (markFinished ?p1 t0 (t_after e))" "terminal (markError ?p1 t0 (t_after e))"
    by (simp_all add: terminal_def markFinished_def markError_def Let_def)
  have n: "\<not> terminal (fst (pauseProcess ?p1 t0 (kill_stop_ret e) (t_after e)))"
    using nt by (rule moved_slice(4))
  consider (fail) "wait_ret e < 0" | (still) "wait_ret e = 0"
    | (ok) "0 < wait_ret e" "exit_ok e" | (bad) "0 < wait_ret e" "\<not> exit_ok e"
    by linarith
  then show ?thesis
  proof cases
    case fail
    then show ?thesis using assms
      by (auto simp: OMLFQ_slice_def dequeue_def Let_def split: prod.splits)
  next
    case still
    then show ?thesis using assms n
      by (auto simp: OMLFQ_slice_def dequeue_def Let_def split: prod.splits)
  next
    case ok
    then show ?thesis using assms t
      by (auto simp: OMLFQ_slice_def dequeue_def Let_def split: prod.splits)
  next
    case bad
    then show ?thesis using assms t
      by (auto simp: OMLFQ_slice_def dequeue_def Let_def split: prod.splits)
  qed
qed


lemma OMLFQ_slice_inv:
  assumes "omlfq_inv s"
  shows "omlfq_inv (OMLFQ_slice t0 e s)"
proof (cases "firstNonEmpty (omlfq_queues s) 0")
  case None
  then show ?thesis using assms by (simp add: OMLFQ_slice_def)
next
  case (Some i)
  obtain q0 q1 q2 where q: "omlfq_queues s = [q0, q1, q2]"
    using assms three unfolding omlfq_inv_def by blast
  have d: "distinct (q0 @ q1 @ q2)"
    and r: "\<forall>x \<in> set (q0 @ q1 @ q2). x < length (omlfq_p s) \<and> \<not> terminal (omlfq_p s ! x)"
    using assms q by (simp_all add: omlfq_inv_def)
  let ?s' = "OMLFQ_slice t0 e s"
  from firstNonEmpty3 [of q0 q1 q2 i] Some q
  consider (top) "i = 0" "q0 \<noteq> []" | (mid) "i = 1" "q0 = []" "q1 \<noteq> []"
    | (low) "i = 2" "q0 = []" "q1 = []" "q2 \<noteq> []"
    by auto
  then show ?thesis
  proof cases
    case top
    then obtain k rest where kr: "q0 = k # rest" by (auto simp: neq_Nil_conv)
    then have qi: "omlfq_queues s ! i = k # rest" using q top by simp
    have nt: "\<not> terminal (omlfq_p s ! k)" using r kr by simp
    obtain p' where p': "omlfq_p ?s' = (omlfq_p s)[k := p']"
      and c: "omlfq_queues ?s' = [rest, q1, q2] \<or>
              \<not> terminal p' \<and> omlfq_queues ?s' = [rest, q1 @ [k], q2]"
      using OMLFQ_slice_shape [OF Some qi nt, of t0 e] q top by (auto simp: enqueue_def)
    show ?thesis using c d r kr p'
      by (auto simp: omlfq_inv_def nth_list_update)
  next
    case mid
    then obtain k rest where kr: "q1 = k # rest" by (auto simp: neq_Nil_conv)
    then have qi: "omlfq_queues s ! i = k # rest" using q mid by simp
    have nt: "\<not> terminal (omlfq_p s ! k)" using r kr by simp
    obtain p' where p': "omlfq_p ?s' = (omlfq_p s)[k := p']"
      and c: "omlfq_queues ?s' = [q0, rest, q2] \<or>
              \<not> terminal p' \<and> omlfq_queues ?s' = [q0, rest, q2 @ [k]]"
      using OMLFQ_slice_shape [OF Some qi nt, of t0 e] q mid by (auto simp: enqueue_def)
    show ?thesis using c d r kr p'
      by (auto simp: omlfq_inv_def nth_list_update)
  next
    case low
    then obtain k rest where kr: "q2 = k # rest" by (auto simp: neq_Nil_conv)
    then have qi: "omlfq_queues s ! i = k # rest" using q low by simp
    have nt: "\<not> terminal (omlfq_p s ! k)" using r kr by simp
    obtain p' where p': "omlfq_p ?s' = (omlfq_p s)[k := p']"
      and c: "omlfq_queues ?s' = [q0, q1, rest] \<or>
              \<not> terminal p' \<and> omlfq_queues ?s' = [q0, q1, rest @ [k]]"
      using OMLFQ_slice_shape [OF Some qi nt, of t0 e] q low by (auto simp: enqueue_def)
    show ?thesis using c d r kr p'
      by (auto simp: omlfq_inv_def nth_list_update)
  qed
qed

lemma OMLFQ_round_inv:
  assumes "omlfq_inv s"
  shows "omlfq_inv (OMLFQ_round boostTime t0 e s)"
proof (cases "omlfq_remaining s = 0")
  case True
  then show ?thesis using assms by (simp add: OMLFQ_round_def)
next
  case False
  let ?s1 = "OMLFQ_slice t0 e s"
  have i1: "omlfq_inv ?s1" using assms by (rule OMLFQ_slice_inv)
  obtain qs lb where b: "boostCheck boostTime e (omlfq_queues ?s1, omlfq_last_boost_time ?s1) = (qs, lb)"
    by (cases "boostCheck boostTime e (omlfq_queues ?s1, omlfq_last_boost_time ?s1)") auto
  have "length (omlfq_queues ?s1) = 3" using i1 by (simp add: omlfq_inv_def)
  from boostCheck_inv [OF this b] show ?thesis
    using i1 False b by (simp add: OMLFQ_round_def Let_def omlfq_inv_def)
qed

lemma OMLFQ_round_evolves:
  assumes "omlfq_inv s"
  shows "evolves (omlfq_p s) (omlfq_p (OMLFQ_round boostTime t0 e s))"
  using OMLFQ_slice_evolves [OF assms, of t0 e]
  by (simp add: OMLFQ_round_def Let_def evolves_refl split: prod.splits)

lemma OMLFQ_step_inv: "omlfq_inv s \<Longrightarrow> omlfq_inv (OMLFQ_step Quantum boostTime t0 e s)"
  by (simp add: OMLFQ_step_def OMLFQ_round_inv OMLFQ_ingest_inv)

lemma OMLFQ_step_evolves:
  assumes "omlfq_inv s"
  shows "evolves (omlfq_p s) (omlfq_p (OMLFQ_step Quantum boostTime t0 e s))"
  unfolding OMLFQ_step_def
  using evolves_trans [OF OMLFQ_ingest_evolves OMLFQ_round_evolves [OF OMLFQ_ingest_inv [OF assms]]] .

lemma OMLFQ_init_inv: "omlfq_inv (OMLFQ_init t0)"
  by (simp add: omlfq_inv_def OMLFQ_init_def)

lemma OMLFQ_run_inv:
  "omlfq_inv s \<Longrightarrow> omlfq_inv (foldl (\<lambda>s e. OMLFQ_step Quantum boostTime t0 e s) s es)"
  by (induction es arbitrary: s) (simp_all add: OMLFQ_step_inv)

lemma OMLFQ_run_evolves:
  "omlfq_inv s \<Longrightarrow>
     evolves (omlfq_p s) (omlfq_p (foldl (\<lambda>s e. OMLFQ_step Quantum boostTime t0 e s) s es))"
proof (induction es arbitrary: s)
  case Nil
  then show ?case by (simp add: evolves_refl)
next
  case (Cons e es)
  show ?case
    using evolves_trans [OF OMLFQ_step_evolves [OF Cons.prems] Cons.IH [OF OMLFQ_step_inv [OF Cons.prems]]]
    by simp
qed

lemma OMLFQ_round_p:
  "omlfq_remaining s \<noteq> 0 \<Longrightarrow>
     omlfq_p (OMLFQ_round boostTime t0 e s) = omlfq_p (OMLFQ_slice t0 e s) \<and>
     omlfq_table (OMLFQ_round boostTime t0 e s) = omlfq_table (OMLFQ_slice t0 e s) \<and>
     omlfq_out (OMLFQ_round boostTime t0 e s) = omlfq_out (OMLFQ_slice t0 e s) \<and>
     omlfq_remaining (OMLFQ_round boostTime t0 e s) = omlfq_remaining (OMLFQ_slice t0 e s)"
  by (simp add: OMLFQ_round_def Let_def split: prod.splits)

subsection \<open>Whole runs\<close>

lemma good_init: "good (initializeOne p)"
  by (simp add: good_def initializeOne_def)

lemma evolves_all_good:
  assumes "evolves ps ps'" "\<forall>p \<in> set ps. good p"
  shows "\<forall>p \<in> set ps'. good p"
proof
  fix p assume "p \<in> set ps'"
  then obtain j where j: "j < length ps'" "p = ps' ! j" by (auto simp: in_set_conv_nth)
  have "\<forall>j < length ps. good (ps ! j)" using assms(2) by simp
  then show "good p" using evolves_good [OF assms(1) _ j(1)] j(2) by simp
qed

lemma evolves_settled:
  assumes "evolves ps0 ps" "\<forall>p \<in> set ps0. good p" "evolves ps ps'"
  shows "settled ps ps'"
proof -
  have g: "\<forall>p \<in> set ps. good p" using evolves_all_good [OF assms(1,2)] .
  have len: "length ps \<le> length ps'" using assms(3) by (simp add: evolves_def)
  show ?thesis unfolding settled_def
  proof (intro allI impI conjI)
    fix j assume j: "j < length ps"
    then show "\<not> (finished (ps ! j) \<and> error (ps ! j))" using g by (simp add: good_def)
    show "j < length ps'" using j len by simp
    assume "finished (ps ! j) \<or> error (ps ! j)"
    then have "terminal (ps ! j)" by (simp add: terminal_def)
    then show "ps' ! j = ps ! j" using evolves_frozen [OF assms(3) j] by simp
  qed
qed

lemma evolves_offline:
  assumes "evolves (initializeProcess ps0) ps" "length ps = length ps0"
  shows "\<forall>p \<in> set ps. offline_ok p"
proof
  fix p assume "p \<in> set ps"
  then obtain j where j: "j < length ps" "p = ps ! j" by (auto simp: in_set_conv_nth)
  let ?q = "initializeProcess ps0 ! j"
  have q: "?q = initializeOne (ps0 ! j)" using j assms(2) by (simp add: initializeProcess_def)
  have q0: "arrival_time ?q = 0" "turnaround_time ?q = 0" "completion_time ?q = 0" "\<not> terminal ?q"
    by (simp_all add: q initializeOne_def terminal_def)
  have jl: "j < length (initializeProcess ps0)" using j assms(2) by (simp add: initializeProcess_def)
  from assms(1) j(1) jl consider (same) "ps ! j = ?q" | (mv) "moved ?q (ps ! j)"
    unfolding evolves_def by metis
  then show "offline_ok p"
  proof cases
    case same
    then show ?thesis using j q0 by (simp add: offline_ok_def terminal_def)
  next
    case mv
    then show ?thesis using j q0
      by (auto simp: offline_ok_def moved_def good_def metrics_ok_def)
  qed
qed

lemma init_all_good: "\<forall>p \<in> set (initializeProcess ps). good p"
  by (simp add: initializeProcess_def good_init)

lemma good_accounted: "good p \<Longrightarrow> accounted p"
  by (simp add: good_def accounted_def)

lemma FCFS_length: "length (fcfs_p (foldl (\<lambda>s e. FCFS_step t0 e s) s es)) = length (fcfs_p s)"
  by (induction es arbitrary: s) (simp_all add: FCFS_step_def split: prod.splits)

lemma RR_length: "length (rr_p (foldl (\<lambda>s e. RR_step t0 e s) s es)) = length (rr_p s)"
proof (induction es arbitrary: s)
  case Nil
  then show ?case by simp
next
  case (Cons e es)
  have "length (rr_p (RR_step t0 e s)) = length (rr_p s)"
    by (simp add: RR_step_def Let_def split: prod.splits)
  then show ?case using Cons.IH by simp
qed

lemma MLFQ_length:
  "length (mlfq_p (foldl (\<lambda>s e. MLFQ_step boostTime t0 e s) s es)) = length (mlfq_p s)"
proof (induction es arbitrary: s)
  case Nil
  then show ?case by simp
next
  case (Cons e es)
  have "length (mlfq_p (MLFQ_step boostTime t0 e s)) = length (mlfq_p s)"
    by (simp add: MLFQ_step_def Let_def split: prod.splits option.splits)
  then show ?case using Cons.IH by simp
qed

lemma FCFS_evolves: "evolves (initializeProcess ps) (fcfs_p (FCFS t0 es ps))"
proof -
  have "evolves (fcfs_p (FCFS_init ps)) (fcfs_p (foldl (\<lambda>s e. FCFS_step t0 e s) (FCFS_init ps) es))"
    using FCFS_init_inv by (rule FCFS_run_evolves)
  then show ?thesis by (simp add: FCFS_def FCFS_init_def)
qed

lemma RR_evolves: "evolves (initializeProcess ps) (rr_p (RoundRobin t0 es ps))"
  using RR_run_evolves [of "RR_init ps" t0 es] by (simp add: RoundRobin_def RR_init_def)

lemma MLFQ_evolves:
  "evolves (initializeProcess ps) (mlfq_p (MultiLevelFeedbackQueue_offline boostTime t0 es ps))"
  using MLFQ_run_evolves [of "MLFQ_init t0 ps" boostTime t0 es]
  by (simp add: MultiLevelFeedbackQueue_offline_def MLFQ_init_def)

lemma SJF_evolves: "evolves [] (sjf_p (ShortestJobFirst t0 es))"
  using SJF_run_evolves [of SJF_init t0 es] by (simp add: ShortestJobFirst_def SJF_init_def)

lemma OMLFQ_evolves:
  "evolves [] (omlfq_p (MultiLevelFeedbackQueue_online quantum0 quantum1 quantum2 boostTime t0 es))"
proof -
  have "evolves (omlfq_p (OMLFQ_init t0))
     (omlfq_p (foldl (\<lambda>s e. OMLFQ_step [quantum0, quantum1, quantum2] boostTime t0 e s) (OMLFQ_init t0) es))"
    using OMLFQ_init_inv by (rule OMLFQ_run_evolves)
  then show ?thesis by (simp add: MultiLevelFeedbackQueue_online_def OMLFQ_init_def)
qed

lemma FCFS_later: "evolves (fcfs_p (FCFS t0 es ps)) (fcfs_p (FCFS t0 (es @ es') ps))"
proof -
  have "fcfs_inv (FCFS t0 es ps)"
    unfolding FCFS_def using FCFS_init_inv by (rule FCFS_run_inv)
  then have "evolves (fcfs_p (FCFS t0 es ps))
     (fcfs_p (foldl (\<lambda>s e. FCFS_step t0 e s) (FCFS t0 es ps) es'))"
    by (rule FCFS_run_evolves)
  then show ?thesis by (simp add: FCFS_def)
qed

lemma RR_later: "evolves (rr_p (RoundRobin t0 es ps)) (rr_p (RoundRobin t0 (es @ es') ps))"
  using RR_run_evolves [of "RoundRobin t0 es ps" t0 es'] by (simp add: RoundRobin_def)

lemma MLFQ_later:
  "evolves (mlfq_p (MultiLevelFeedbackQueue_offline boostTime t0 es ps))
     (mlfq_p (MultiLevelFeedbackQueue_offline boostTime t0 (es @ es') ps))"
  using MLFQ_run_evolves [of "MultiLevelFeedbackQueue_offline boostTime t0 es ps" boostTime t0 es']
  by (simp add: MultiLevelFeedbackQueue_offline_def)

lemma SJF_later: "evolves (sjf_p (ShortestJobFirst t0 es)) (sjf_p (ShortestJobFirst t0 (es @ es')))"
  using SJF_run_evolves [of "ShortestJobFirst t0 es" t0 es'] by (simp add: ShortestJobFirst_def)

lemma OMLFQ_later:
  "evolves (omlfq_p (MultiLevelFeedbackQueue_online quantum0 quantum1 quantum2 boostTime t0 es))
     (omlfq_p (MultiLevelFeedbackQueue_online quantum0 quantum1 quantum2 boostTime t0 (es @ es')))"
proof -
  let ?run = "MultiLevelFeedbackQueue_online quantum0 quantum1 quantum2 boostTime t0"
  have "omlfq_inv (?run es)"
    unfolding MultiLevelFeedbackQueue_online_def using OMLFQ_init_inv by (rule OMLFQ_run_inv)
  then have "evolves (omlfq_p (?run es))
     (omlfq_p (foldl (\<lambda>s e. OMLFQ_step [quantum0, quantum1, quantum2] boostTime t0 e s) (?run es) es'))"
    by (rule OMLFQ_run_evolves)
  then show ?thesis by (simp add: MultiLevelFeedbackQueue_online_def)
qed

subsection \<open>The history table of the online schedulers\<close>

lemma finishedBursts_append:
  "\<forall>q \<in> set qs. \<not> finished q \<Longrightarrow> finishedBursts cmd (ps @ qs) = finishedBursts cmd ps"
  by (simp add: finishedBursts_def)

lemma finishedBursts_update_other:
  "\<not> finished (ps ! k) \<Longrightarrow> \<not> (finished x \<and> command x = cmd) \<Longrightarrow>
     finishedBursts cmd (ps[k := x]) = finishedBursts cmd ps"
proof (induction ps arbitrary: k)
  case Nil
  then show ?case by simp
next
  case (Cons p ps)
  then show ?case by (cases k) (auto simp: finishedBursts_def)
qed

lemma finishedBursts_update_finished:
  "k < length ps \<Longrightarrow> \<not> finished (ps ! k) \<Longrightarrow> finished x \<Longrightarrow>
     sum_list (map ucast (finishedBursts (command x) (ps[k := x]))) =
       (sum_list (map ucast (finishedBursts (command x) ps)) + ucast (burst_time x) :: cint) \<and>
     length (finishedBursts (command x) (ps[k := x])) = Suc (length (finishedBursts (command x) ps))"
proof (induction ps arbitrary: k)
  case Nil
  then show ?case by simp
next
  case (Cons p ps)
  then show ?case by (cases k) (auto simp: finishedBursts_def)
qed

lemma table_agrees_same:
  assumes "table_agrees ps tbl" "\<not> finished (ps ! k)" "\<not> finished x"
  shows "table_agrees (ps[k := x]) tbl"
  using assms by (simp add: table_agrees_def finishedBursts_update_other)

lemma table_agrees_finish:
  assumes a: "table_agrees ps tbl" and k: "k < length ps" "\<not> finished (ps ! k)" and x: "finished x"
  shows "table_agrees (ps[k := x]) (updateBurstTime tbl (ucast (burst_time x)) (command x))"
proof -
  have len: "length tbl = NUM_CELLS" using a by (simp add: table_agrees_def)
  note upd = finishedBursts_update_finished [OF k x]
  have "findNode (updateBurstTime tbl (ucast (burst_time x)) (command x)) cmd =
         (if finishedBursts cmd (ps[k := x]) = [] then None
          else Some \<lparr>node_command = cmd,
                     sum_burst_time = sum_list (map ucast (finishedBursts cmd (ps[k := x]))),
                     num_bursts = of_nat (length (finishedBursts cmd (ps[k := x])))\<rparr>)" for cmd
  proof (cases "cmd = command x")
    case True
    have ne: "finishedBursts (command x) (ps[k := x]) \<noteq> []" using upd by auto
    show ?thesis
    proof (cases "finishedBursts (command x) ps = []")
      case True
      then have "findNode tbl (command x) = None" using a by (simp add: table_agrees_def)
      then show ?thesis using \<open>cmd = command x\<close> ne upd True
        by (simp add: findNode_updateBurstTime [OF len])
    next
      case False
      then have "findNode tbl (command x) =
          Some \<lparr>node_command = command x,
                sum_burst_time = sum_list (map ucast (finishedBursts (command x) ps)),
                num_bursts = of_nat (length (finishedBursts (command x) ps))\<rparr>"
        using a by (simp add: table_agrees_def)
      then show ?thesis using \<open>cmd = command x\<close> ne upd
        by (simp add: findNode_updateBurstTime [OF len])
    qed
  next
    case False
    then have "finishedBursts cmd (ps[k := x]) = finishedBursts cmd ps"
      using k(2) by (simp add: finishedBursts_update_other)
    then show ?thesis using False a
      by (simp add: findNode_updateBurstTime [OF len] table_agrees_def)
  qed
  then show ?thesis using len by (simp add: table_agrees_def)
qed

lemma table_agrees_empty: "table_agrees [] emptyTable"
proof -
  have "length emptyTable = NUM_CELLS" by (simp add: emptyTable_def)
  then show ?thesis by (simp add: table_agrees_def finishedBursts_def findNode_emptyTable)
qed

lemma SJF_ingest_agrees:
  "table_agrees (sjf_p s) (sjf_table s) \<Longrightarrow>
     table_agrees (sjf_p (SJF_ingest t0 as s)) (sjf_table (SJF_ingest t0 as s))"
  by (simp add: SJF_ingest_p SJF_ingest_table table_agrees_def finishedBursts_append newProcess_def)

lemma SJF_round_agrees:
  assumes "table_agrees (sjf_p s) (sjf_table s)"
  shows "table_agrees (sjf_p (SJF_round t0 e s)) (sjf_table (SJF_round t0 e s))"
proof (cases "sjf_remaining s = 0 \<or> sjfSelect (sjf_table s) (sjf_p s) = - 1")
  case True
  then show ?thesis using assms by (auto simp: SJF_round_def Let_def)
next
  case False
  let ?k = "nat (sjfSelect (sjf_table s) (sjf_p s))"
  let ?p1 = "fst (executeProcess (sjf_p s ! ?k) t0 (fork_ret e) (t_dispatch e))"
  have v: "?k < length (sjf_p s)" "\<not> finished (sjf_p s ! ?k)"
    using False sjfSelect_valid [of "sjf_table s" "sjf_p s"] by (auto simp: terminal_def)
  have nf: "\<not> finished ?p1" "\<not> finished (SJF_error ?p1 t0 (t_after e))"
    "finished (SJF_finished ?p1 t0 (t_after e))"
    using v(2) by (simp_all add: executeProcess_def SJF_error_def SJF_finished_def Let_def)
  consider (fail) "wait_ret e < 0" | (ok) "0 \<le> wait_ret e" "exit_ok e"
    | (bad) "0 \<le> wait_ret e" "\<not> exit_ok e"
    by linarith
  then show ?thesis
  proof cases
    case fail
    then show ?thesis
      using False table_agrees_same [OF assms v(2) nf(1)]
      by (simp add: SJF_round_def Let_def case_prod_beta)
  next
    case ok
    then show ?thesis
      using False table_agrees_finish [OF assms v nf(3)]
      by (simp add: SJF_round_def Let_def case_prod_beta)
  next
    case bad
    then show ?thesis
      using False table_agrees_same [OF assms v(2) nf(2)]
      by (simp add: SJF_round_def Let_def case_prod_beta)
  qed
qed

lemma SJF_run_agrees:
  "table_agrees (sjf_p s) (sjf_table s) \<Longrightarrow>
     table_agrees (sjf_p (foldl (\<lambda>s e. SJF_step t0 e s) s es))
                  (sjf_table (foldl (\<lambda>s e. SJF_step t0 e s) s es))"
  by (induction es arbitrary: s) (simp_all add: SJF_step_def SJF_round_agrees SJF_ingest_agrees)

lemma SJF_agrees: "table_agrees (sjf_p (ShortestJobFirst t0 es)) (sjf_table (ShortestJobFirst t0 es))"
  unfolding ShortestJobFirst_def
  by (rule SJF_run_agrees) (simp add: SJF_init_def table_agrees_empty)

lemma OMLFQ_ingest_agrees:
  "table_agrees (omlfq_p s) (omlfq_table s) \<Longrightarrow>
     table_agrees (omlfq_p (OMLFQ_ingest Quantum t0 as s)) (omlfq_table (OMLFQ_ingest Quantum t0 as s))"
  by (simp add: OMLFQ_ingest_p OMLFQ_ingest_table table_agrees_def finishedBursts_append newProcess_def)

lemma OMLFQ_slice_agrees:
  assumes inv: "omlfq_inv s" and a: "table_agrees (omlfq_p s) (omlfq_table s)"
  shows "table_agrees (omlfq_p (OMLFQ_slice t0 e s)) (omlfq_table (OMLFQ_slice t0 e s))"
proof (cases "firstNonEmpty (omlfq_queues s) 0")
  case None
  then show ?thesis using a by (simp add: OMLFQ_slice_def)
next
  case (Some i)
  obtain q0 q1 q2 where q: "omlfq_queues s = [q0, q1, q2]"
    using inv three unfolding omlfq_inv_def by blast
  have "i < 3 \<and> omlfq_queues s ! i \<noteq> []"
    using firstNonEmpty3 [of q0 q1 q2 i] Some q by auto
  then obtain k rest where kr: "omlfq_queues s ! i = k # rest" and i: "i < 3"
    by (auto simp: neq_Nil_conv)
  have "i < length (omlfq_queues s)" using i q by simp
  then have "omlfq_queues s ! i \<in> set (omlfq_queues s)" by (rule nth_mem)
  then have "k \<in> set (concat (omlfq_queues s))"
    using kr by (metis list.set_intros(1) set_concat UN_I)
  then have v: "k < length (omlfq_p s)" "\<not> finished (omlfq_p s ! k)"
    using inv unfolding omlfq_inv_def terminal_def by blast+
  let ?p1 = "fst (dispatch (omlfq_p s ! k) t0 e)"
  have nf: "\<not> finished ?p1"
    "\<not> finished (fst (pauseProcess ?p1 t0 (kill_stop_ret e) (t_after e)))"
    "\<not> finished (markError ?p1 t0 (t_after e))"
    "finished (markFinished ?p1 t0 (t_after e))"
    using v(2)
    by (simp_all add: dispatch_def executeProcess_def resumeProcess_def pauseProcess_def
        markError_def markFinished_def Let_def)
  consider (fail) "wait_ret e < 0" | (still) "wait_ret e = 0"
    | (ok) "0 < wait_ret e" "exit_ok e" | (bad) "0 < wait_ret e" "\<not> exit_ok e"
    by linarith
  then show ?thesis
  proof cases
    case fail
    then show ?thesis using Some kr table_agrees_same [OF a v(2) nf(1)]
      by (simp add: OMLFQ_slice_def dequeue_def Let_def case_prod_beta)
  next
    case still
    then show ?thesis using Some kr table_agrees_same [OF a v(2) nf(2)]
      by (simp add: OMLFQ_slice_def dequeue_def Let_def case_prod_beta)
  next
    case ok
    then show ?thesis using Some kr table_agrees_finish [OF a v nf(4)]
      by (simp add: OMLFQ_slice_def dequeue_def Let_def case_prod_beta)
  next
    case bad
    then show ?thesis using Some kr table_agrees_same [OF a v(2) nf(3)]
      by (simp add: OMLFQ_slice_def dequeue_def Let_def case_prod_beta)
  qed
qed

lemma OMLFQ_step_agrees:
  assumes "omlfq_inv s" "table_agrees (omlfq_p s) (omlfq_table s)"
  shows "table_agrees (omlfq_p (OMLFQ_step Quantum boostTime t0 e s))
           (omlfq_table (OMLFQ_step Quantum boostTime t0 e s))"
proof -
  let ?s1 = "OMLFQ_ingest Quantum t0 (arrivals e) s"
  have i1: "omlfq_inv ?s1" using assms(1) by (rule OMLFQ_ingest_inv)
  have a1: "table_agrees (omlfq_p ?s1) (omlfq_table ?s1)" using assms(2) by (rule OMLFQ_ingest_agrees)
  show ?thesis
  proof (cases "omlfq_remaining ?s1 = 0")
    case True
    then show ?thesis using a1 by (simp add: OMLFQ_step_def OMLFQ_round_def)
  next
    case False
    then show ?thesis
      using OMLFQ_slice_agrees [OF i1 a1, of t0 e] OMLFQ_round_p [OF False, of boostTime t0 e]
      by (simp add: OMLFQ_step_def)
  qed
qed

lemma OMLFQ_run_agrees:
  "omlfq_inv s \<Longrightarrow> table_agrees (omlfq_p s) (omlfq_table s) \<Longrightarrow>
     table_agrees (omlfq_p (foldl (\<lambda>s e. OMLFQ_step Quantum boostTime t0 e s) s es))
                  (omlfq_table (foldl (\<lambda>s e. OMLFQ_step Quantum boostTime t0 e s) s es))"
  by (induction es arbitrary: s) (simp_all add: OMLFQ_step_agrees OMLFQ_step_inv)

lemma OMLFQ_agrees:
  "table_agrees (omlfq_p (MultiLevelFeedbackQueue_online quantum0 quantum1 quantum2 boostTime t0 es))
     (omlfq_table (MultiLevelFeedbackQueue_online quantum0 quantum1 quantum2 boostTime t0 es))"
  unfolding MultiLevelFeedbackQueue_online_def
  by (rule OMLFQ_run_agrees) (simp_all add: OMLFQ_init_inv, simp add: OMLFQ_init_def table_agrees_empty)

lemma finishedBursts_nonempty:
  "(finishedBursts cmd ps \<noteq> []) = (\<exists>q \<in> set ps. finished q \<and> command q = cmd)"
  by (auto simp: finishedBursts_def filter_empty_conv)

section \<open>Metrics of terminal records\<close>

text \<open>
  Claim C1, as the code has it. In every run of each of the five schedulers, a record that has
  finished satisfies turnaround = completion - arrival, waiting = turnaround - burst and
  response = start - arrival, and a record that has failed satisfies response = start - arrival.
  The fields are unsigned 64-bit integers and the equations are those of that arithmetic; none
  of the four durations can be negative.
\<close>

theorem terminal_records_accounted:
  "list_all accounted (fcfs_p (FCFS t0 es ps)) \<and>
   list_all accounted (rr_p (RoundRobin t0 es ps)) \<and>
   list_all accounted (mlfq_p (MultiLevelFeedbackQueue_offline boostTime t0 es ps)) \<and>
   list_all accounted (sjf_p (ShortestJobFirst t0 es)) \<and>
   list_all accounted
     (omlfq_p (MultiLevelFeedbackQueue_online quantum0 quantum1 quantum2 boostTime t0 es))"
proof -
  have off: "list_all accounted qs" if "evolves (initializeProcess ps) qs" for qs
    using evolves_all_good [OF that init_all_good] by (simp add: list_all_iff good_accounted)
  have on: "list_all accounted qs" if "evolves [] qs" for qs
    using evolves_all_good [OF that] by (simp add: list_all_iff good_accounted)
  show ?thesis
    by (intro conjI off [OF FCFS_evolves] off [OF RR_evolves] off [OF MLFQ_evolves]
        on [OF SJF_evolves] on [OF OMLFQ_evolves])
qed

theorem terminal_records_accounted_witness:
  "finished (fcfs_p finishedRun ! 0) \<and> metrics_ok (fcfs_p finishedRun ! 0) \<and>
   completion_time (fcfs_p finishedRun ! 0) = 12 \<and> burst_time (fcfs_p finishedRun ! 0) = 7 \<and>
   turnaround_time (fcfs_p finishedRun ! 0) = 12 \<and> waiting_time (fcfs_p finishedRun ! 0) = 5 \<and>
   error (fcfs_p failedRun ! 0) \<and>
   response_time (fcfs_p failedRun ! 0) = start_time (fcfs_p failedRun ! 0) - arrival_time (fcfs_p failedRun ! 0) \<and>
   finished (sjf_p overflowRun ! 0) \<and> metrics_ok (sjf_p overflowRun ! 0)"
  using terminal_records_accounted [of 100 "[sampleEnv [] 7 105 7 True 112]" "[sampleProcess ''true'']"]
    terminal_records_accounted [of 100 "[sampleEnv [] 7 105 7 False 112]" "[sampleProcess ''false'']"]
    terminal_records_accounted [of 0 "[sampleEnv [sampleArrival ''a\<newline>'' 0] 7 0 7 True 2147483648]"]
  by (simp add: finishedRun_def failedRun_def overflowRun_def accounted_def fcfs_defs sjf_defs sample_defs table_defs)

text \<open>
  Claim C1 as stated fails for a record that ends in error: the error branch writes neither the
  turnaround nor the waiting time. In \<open>failedRun\<close> the child is forked at 5 ms and exits with a
  nonzero status at 12 ms; the record keeps turnaround 0 and waiting 0 with a burst of 7.
\<close>

theorem error_record_unaccounted:
  "error (fcfs_p failedRun ! 0) \<and>
   turnaround_time (fcfs_p failedRun ! 0) = 0 \<and>
   burst_time (fcfs_p failedRun ! 0) = 7 \<and>
   waiting_time (fcfs_p failedRun ! 0) = 0 \<and>
   waiting_time (fcfs_p failedRun ! 0) \<noteq> turnaround_time (fcfs_p failedRun ! 0) - burst_time (fcfs_p failedRun ! 0)"
  by (simp add: failedRun_def fcfs_defs sample_defs)

section \<open>The two terminal flags\<close>

text \<open>
  Claim C7. At every point of every run of each of the five schedulers, no record has both the
  finished and the error flag, and a record with either flag is never changed again: at any
  later point of the run it is the same record, flags included.
\<close>

theorem flags_exclusive_and_final:
  "settled (fcfs_p (FCFS t0 es ps)) (fcfs_p (FCFS t0 (es @ es') ps)) \<and>
   settled (rr_p (RoundRobin t0 es ps)) (rr_p (RoundRobin t0 (es @ es') ps)) \<and>
   settled (mlfq_p (MultiLevelFeedbackQueue_offline boostTime t0 es ps))
           (mlfq_p (MultiLevelFeedbackQueue_offline boostTime t0 (es @ es') ps)) \<and>
   settled (sjf_p (ShortestJobFirst t0 es)) (sjf_p (ShortestJobFirst t0 (es @ es'))) \<and>
   settled (omlfq_p (MultiLevelFeedbackQueue_online quantum0 quantum1 quantum2 boostTime t0 es))
           (omlfq_p (MultiLevelFeedbackQueue_online quantum0 quantum1 quantum2 boostTime t0 (es @ es')))"
proof -
  have e: "\<forall>p \<in> set ([] :: Process list). good p" by simp
  show ?thesis
  proof (intro conjI)
    show "settled (fcfs_p (FCFS t0 es ps)) (fcfs_p (FCFS t0 (es @ es') ps))"
      by (rule evolves_settled [OF FCFS_evolves init_all_good FCFS_later])
    show "settled (rr_p (RoundRobin t0 es ps)) (rr_p (RoundRobin t0 (es @ es') ps))"
      by (rule evolves_settled [OF RR_evolves init_all_good RR_later])
    show "settled (mlfq_p (MultiLevelFeedbackQueue_offline boostTime t0 es ps))
           (mlfq_p (MultiLevelFeedbackQueue_offline boostTime t0 (es @ es') ps))"
      by (rule evolves_settled [OF MLFQ_evolves init_all_good MLFQ_later])
    show "settled (sjf_p (ShortestJobFirst t0 es)) (sjf_p (ShortestJobFirst t0 (es @ es')))"
      by (rule evolves_settled [OF SJF_evolves e SJF_later])
    show "settled (omlfq_p (MultiLevelFeedbackQueue_online quantum0 quantum1 quantum2 boostTime t0 es))
           (omlfq_p (MultiLevelFeedbackQueue_online quantum0 quantum1 quantum2 boostTime t0 (es @ es')))"
      by (rule evolves_settled [OF OMLFQ_evolves e OMLFQ_later])
  qed
qed

theorem flags_exclusive_and_final_witness:
  "finished (rr_p (RoundRobin 100 [sampleEnv [] 7 105 7 True 112] [sampleProcess ''true'', sampleProcess ''false'']) ! 0) \<and>
   \<not> error (rr_p (RoundRobin 100 [sampleEnv [] 7 105 7 True 112] [sampleProcess ''true'', sampleProcess ''false'']) ! 0) \<and>
   rr_p (RoundRobin 100 ([sampleEnv [] 7 105 7 True 112] @ [sampleEnv [] 8 113 8 False 120])
          [sampleProcess ''true'', sampleProcess ''false'']) ! 0 =
   rr_p (RoundRobin 100 [sampleEnv [] 7 105 7 True 112] [sampleProcess ''true'', sampleProcess ''false'']) ! 0 \<and>
   error (rr_p (RoundRobin 100 ([sampleEnv [] 7 105 7 True 112] @ [sampleEnv [] 8 113 8 False 120])
          [sampleProcess ''true'', sampleProcess ''false'']) ! 1)"
  using flags_exclusive_and_final [of 100 "[sampleEnv [] 7 105 7 True 112]"
      "[sampleProcess ''true'', sampleProcess ''false'']" "[sampleEnv [] 8 113 8 False 120]"]
  by (simp add: settled_def rr_defs sample_defs)

section \<open>Arrival time of the offline schedulers\<close>

text \<open>
  Claim C10. In every run of FCFS, round robin and the offline MLFQ, every record has arrival
  time 0, and every terminal record has its turnaround time equal to its completion time and
  its response time equal to its start time.
\<close>

theorem offline_arrival_zero:
  "list_all offline_ok (fcfs_p (FCFS t0 es ps)) \<and>
   list_all offline_ok (rr_p (RoundRobin t0 es ps)) \<and>
   list_all offline_ok (mlfq_p (MultiLevelFeedbackQueue_offline boostTime t0 es ps))"
proof -
  have "length (fcfs_p (FCFS t0 es ps)) = length ps"
    by (simp add: FCFS_def FCFS_length FCFS_init_def initializeProcess_def)
  moreover have "length (rr_p (RoundRobin t0 es ps)) = length ps"
    by (simp add: RoundRobin_def RR_length RR_init_def initializeProcess_def)
  moreover have "length (mlfq_p (MultiLevelFeedbackQueue_offline boostTime t0 es ps)) = length ps"
    by (simp add: MultiLevelFeedbackQueue_offline_def MLFQ_length MLFQ_init_def initializeProcess_def)
  ultimately show ?thesis
    using evolves_offline [OF FCFS_evolves] evolves_offline [OF RR_evolves]
      evolves_offline [OF MLFQ_evolves]
    by (simp add: list_all_iff)
qed

theorem offline_arrival_zero_witness:
  "arrival_time (fcfs_p finishedRun ! 0) = 0 \<and> finished (fcfs_p finishedRun ! 0) \<and>
   turnaround_time (fcfs_p finishedRun ! 0) = completion_time (fcfs_p finishedRun ! 0) \<and>
   completion_time (fcfs_p finishedRun ! 0) = 12 \<and>
   response_time (fcfs_p finishedRun ! 0) = start_time (fcfs_p finishedRun ! 0) \<and>
   start_time (fcfs_p finishedRun ! 0) = 5 \<and>
   error (fcfs_p failedRun ! 0) \<and>
   turnaround_time (fcfs_p failedRun ! 0) = completion_time (fcfs_p failedRun ! 0) \<and>
   response_time (fcfs_p failedRun ! 0) = start_time (fcfs_p failedRun ! 0)"
  using offline_arrival_zero [of 100 "[sampleEnv [] 7 105 7 True 112]" "[sampleProcess ''true'']"]
    offline_arrival_zero [of 100 "[sampleEnv [] 7 105 7 False 112]" "[sampleProcess ''false'']"]
  by (simp add: finishedRun_def failedRun_def offline_ok_def fcfs_defs sample_defs)

section \<open>Estimates of the burst predictor\<close>

text \<open>
  Claim C2, as the code has it. In every run of the online SJF scheduler and of the online MLFQ,
  the history table has an entry for a command iff some record with that command has finished.
  For SJF, the estimate of a record is 1000 when no record with its command has finished, and
  otherwise the truncated quotient of the sum of the bursts of the finished records with its
  command by their number, provided that sum and that number are below \<open>2\<^sup>3\<^sup>1\<close>, the range of
  the \<^verbatim>\<open>int\<close> fields that hold them. In particular one finished run with burst \<open>b\<close> gives
  \<open>b\<close>, and two finished runs with bursts \<open>b1\<close> and \<open>b2\<close> give \<open>(b1 + b2) div 2\<close>.
\<close>

theorem burst_predictor_estimate:
  "(findNode (sjf_table (ShortestJobFirst t0 es)) (command p) \<noteq> None) =
     (\<exists>q \<in> set (sjf_p (ShortestJobFirst t0 es)). finished q \<and> command q = command p) \<and>
   (findNode (omlfq_table (MultiLevelFeedbackQueue_online quantum0 quantum1 quantum2 boostTime t0 es))
       (command p) \<noteq> None) =
     (\<exists>q \<in> set (omlfq_p (MultiLevelFeedbackQueue_online quantum0 quantum1 quantum2 boostTime t0 es)).
        finished q \<and> command q = command p) \<and>
   (finishedBursts (command p) (sjf_p (ShortestJobFirst t0 es)) = [] \<longrightarrow>
      getExpectedBurstTime (sjf_table (ShortestJobFirst t0 es)) p = 1000) \<and>
   (finishedBursts (command p) (sjf_p (ShortestJobFirst t0 es)) \<noteq> [] \<and>
    sum_list (map unat (finishedBursts (command p) (sjf_p (ShortestJobFirst t0 es)))) < 2 ^ 31 \<and>
    length (finishedBursts (command p) (sjf_p (ShortestJobFirst t0 es))) < 2 ^ 31 \<longrightarrow>
      unat (getExpectedBurstTime (sjf_table (ShortestJobFirst t0 es)) p) =
        sum_list (map unat (finishedBursts (command p) (sjf_p (ShortestJobFirst t0 es)))) div
        length (finishedBursts (command p) (sjf_p (ShortestJobFirst t0 es)))) \<and>
   (finishedBursts (command p) (sjf_p (ShortestJobFirst t0 es)) = [b] \<and> unat b < 2 ^ 31 \<longrightarrow>
      getExpectedBurstTime (sjf_table (ShortestJobFirst t0 es)) p = b) \<and>
   (finishedBursts (command p) (sjf_p (ShortestJobFirst t0 es)) = [b1, b2] \<and>
    unat b1 + unat b2 < 2 ^ 31 \<longrightarrow>
      unat (getExpectedBurstTime (sjf_table (ShortestJobFirst t0 es)) p) = (unat b1 + unat b2) div 2)"
proof -
  let ?s = "ShortestJobFirst t0 es"
  let ?m = "MultiLevelFeedbackQueue_online quantum0 quantum1 quantum2 boostTime t0 es"
  let ?bs = "finishedBursts (command p) (sjf_p ?s)"
  let ?est = "getExpectedBurstTime (sjf_table ?s) p"
  have node: "findNode (sjf_table ?s) (command p) =
         (if ?bs = [] then None
          else Some \<lparr>node_command = command p, sum_burst_time = sum_list (map ucast ?bs),
                     num_bursts = of_nat (length ?bs)\<rparr>)"
    using SJF_agrees [of t0 es] unfolding table_agrees_def by blast
  have nodem: "findNode (omlfq_table ?m) (command p) =
         (if finishedBursts (command p) (omlfq_p ?m) = [] then None
          else Some \<lparr>node_command = command p,
                     sum_burst_time = sum_list (map ucast (finishedBursts (command p) (omlfq_p ?m))),
                     num_bursts = of_nat (length (finishedBursts (command p) (omlfq_p ?m)))\<rparr>)"
    using OMLFQ_agrees [of quantum0 quantum1 quantum2 boostTime t0 es] unfolding table_agrees_def by blast
  have exists: "(findNode (sjf_table ?s) (command p) \<noteq> None) =
      (\<exists>q \<in> set (sjf_p ?s). finished q \<and> command q = command p)"
    by (simp add: node finishedBursts_nonempty [symmetric])
  have existsm: "(findNode (omlfq_table ?m) (command p) \<noteq> None) =
      (\<exists>q \<in> set (omlfq_p ?m). finished q \<and> command q = command p)"
    by (simp add: nodem finishedBursts_nonempty [symmetric])
  have default: "?bs = [] \<longrightarrow> ?est = 1000"
    by (simp add: getExpectedBurstTime_def node)
  have quotient: "unat ?est = sum_list (map unat ?bs) div length ?bs"
    if "?bs \<noteq> []" "sum_list (map unat ?bs) < 2 ^ 31" "length ?bs < 2 ^ 31"
    using that estimate_value [OF that] by (simp add: getExpectedBurstTime_def node)
  have one: "?est = b" if "?bs = [b]" "unat b < 2 ^ 31"
  proof -
    have "unat ?est = unat b" using quotient that by simp
    then show ?thesis by (rule word_unat_eq_iff [THEN iffD2])
  qed
  have two: "unat ?est = (unat b1 + unat b2) div 2" if "?bs = [b1, b2]" "unat b1 + unat b2 < 2 ^ 31"
  proof -
    have "sum_list (map unat ?bs) = unat b1 + unat b2" "length ?bs = 2" "?bs \<noteq> []"
      using that by simp_all
    moreover have "(2::nat) < 2 ^ 31" by simp
    ultimately show ?thesis using quotient that(2) by metis
  qed
  show ?thesis using exists existsm default quotient one two by blast
qed

theorem burst_predictor_estimate_witness:
  "finishedBursts ''ls'' (sjf_p threeRuns) = [30, 51] \<and>
   unat (30 :: u64) + unat (51 :: u64) < 2 ^ 31 \<and>
   unat (getExpectedBurstTime (sjf_table threeRuns) (sampleProcess ''ls'')) = 40 \<and>
   finishedBursts ''pwd'' (sjf_p threeRuns) = [5] \<and>
   getExpectedBurstTime (sjf_table threeRuns) (sampleProcess ''pwd'') = 5 \<and>
   finishedBursts ''cat'' (sjf_p threeRuns) = [] \<and>
   getExpectedBurstTime (sjf_table threeRuns) (sampleProcess ''cat'') = 1000 \<and>
   findNode (sjf_table threeRuns) ''ls'' \<noteq> None \<and>
   findNode (sjf_table threeRuns) ''cat'' = None"
proof -
  have b: "finishedBursts ''ls'' (sjf_p threeRuns) = [30, 51]"
    "finishedBursts ''pwd'' (sjf_p threeRuns) = [5]"
    "finishedBursts ''cat'' (sjf_p threeRuns) = []"
    by (simp_all add: threeRuns_def finishedBursts_def sjf_defs sample_defs table_defs)
  have c: "command (sampleProcess ''ls'') = ''ls''" "command (sampleProcess ''pwd'') = ''pwd''"
    "command (sampleProcess ''cat'') = ''cat''"
    by (simp_all add: sampleProcess_def)
  have n: "(\<exists>q \<in> set (sjf_p threeRuns). finished q \<and> command q = ''ls'')"
    "\<not> (\<exists>q \<in> set (sjf_p threeRuns). finished q \<and> command q = ''cat'')"
    using b finishedBursts_nonempty [of "''ls''" "sjf_p threeRuns"]
      finishedBursts_nonempty [of "''cat''" "sjf_p threeRuns"]
    by simp_all
  let ?es = "[sampleEnv [sampleArrival ''ls\<newline>'' 0] 7 0 7 True 30,
      sampleEnv [sampleArrival ''pwd\<newline>'' 31] 8 31 8 True 36,
      sampleEnv [sampleArrival ''ls\<newline>'' 37] 9 37 9 True 88]"
  have r: "ShortestJobFirst 0 ?es = threeRuns" by (simp add: threeRuns_def)
  show ?thesis
    using burst_predictor_estimate [of 0 ?es "sampleProcess ''ls''" 20 40 80 500 0 30 51]
      burst_predictor_estimate [of 0 ?es "sampleProcess ''pwd''" 20 40 80 500 5 0 0]
      burst_predictor_estimate [of 0 ?es "sampleProcess ''cat''" 20 40 80 500 0 0 0]
      b n
    unfolding r c
    by simp
qed

text \<open>
  Claim C2 as stated fails beyond that range. The run \<open>overflowRun\<close> completes the command \<^verbatim>\<open>a\<close>
  once, with burst \<open>2\<^sup>3\<^sup>1\<close>; the burst is truncated to a negative \<^verbatim>\<open>int\<close>, and the estimate,
  converted back to \<^verbatim>\<open>uint64_t\<close>, is not the burst.
\<close>

theorem burst_predictor_overflow:
  "finished (sjf_p overflowRun ! 0) \<and> burst_time (sjf_p overflowRun ! 0) = 2147483648 \<and>
   finishedBursts (command (sjf_p overflowRun ! 0)) (sjf_p overflowRun) = [2147483648] \<and>
   getExpectedBurstTime (sjf_table overflowRun) (sjf_p overflowRun ! 0) = 18446744071562067968"
  by (simp add: overflowRun_def sample_defs table_defs sjf_defs finishedBursts_def)

section \<open>Pausing and resuming\<close>

text \<open>
  Both functions return at once, sending no signal and leaving the record as it is, when the
  record has not started or has finished.
\<close>

lemma pause_resume_guard:
  "\<not> started p \<or> finished p \<Longrightarrow>
     pauseProcess p t0 r now = (p, []) \<and> resumeProcess p t0 r now = (p, [])"
  by (auto simp: pauseProcess_def resumeProcess_def)

text \<open>
  Claim C9 asks the same of a record that has failed, but the guard of both functions tests
  only the finished flag. \<open>erroredRecord\<close> is the record of a round robin run whose child
  exited with a nonzero status: pausing it sends \<^verbatim>\<open>SIGSTOP\<close> to the dead child and rewrites the
  context-end and burst times, resuming it sends \<^verbatim>\<open>SIGCONT\<close> and rewrites the context-start time.
\<close>

theorem pause_resume_errored:
  "started erroredRecord \<and> error erroredRecord \<and> \<not> finished erroredRecord \<and>
   process_id erroredRecord = 7 \<and> context_start_time erroredRecord = 5 \<and>
   context_end_time erroredRecord = 12 \<and> burst_time erroredRecord = 0 \<and>
   pauseProcess erroredRecord 100 0 130 =
     (erroredRecord\<lparr>context_end_time := 30, burst_time := 25\<rparr>, [Signalled 7 SIGSTOP]) \<and>
   resumeProcess erroredRecord 100 0 130 =
     (erroredRecord\<lparr>context_start_time := 30\<rparr>, [Signalled 7 SIGCONT])"
  by (simp add: erroredRecord_def rr_defs sample_defs)

theorem pause_resume_errored_witness:
  "error erroredRecord \<and>
   context_end_time erroredRecord = 12 \<and>
   context_end_time (fst (pauseProcess erroredRecord 100 0 130)) = 30 \<and>
   snd (pauseProcess erroredRecord 100 0 130) = [Signalled 7 SIGSTOP] \<and>
   context_start_time erroredRecord = 5 \<and>
   context_start_time (fst (resumeProcess erroredRecord 100 0 130)) = 30 \<and>
   snd (resumeProcess erroredRecord 100 0 130) = [Signalled 7 SIGCONT]"
  using pause_resume_errored by simp

section \<open>Commands without a token\<close>

lemma parseCommand_empty: "parseCommand True rok [] = Some []"
  by (simp add: parseCommand_def)

lemma parseCommand_blanks: "parseCommand True rok ''   '' = Some []"
  by (simp add: parseCommand_def)

lemma parseCommand_NULL: "parseCommand False rok input = None"
  by (simp add: parseCommand_def)

lemma child_unparseable:
  "parseCommand cok rok (command p) = None \<Longrightarrow> childProcess programs null_faults cok rok p = Exited 0"
  by (simp add: childProcess_def)

text \<open>
  Claim C8 holds for a command that \<^verbatim>\<open>parseCommand\<close> cannot parse (lemma \<open>child_unparseable\<close>:
  the child exits with status 0), but not for the empty command. \<^verbatim>\<open>parseCommand\<close> returns an
  empty token array for it, not \<^verbatim>\<open>NULL\<close>; the child calls \<^verbatim>\<open>execvp\<close> on a null path and ends
  with exit status 1 or by a fault; the scheduler, whatever the programs installed, marks the
  record as failed.
\<close>

theorem empty_command_is_error:
  "parseCommand True rok (command (sampleProcess [])) = Some [] \<and>
   \<not> status_ok (childProcess programs null_faults True rok (sampleProcess [])) \<and>
   error (fcfs_p (FCFS 100
       [sampleEnv [] 7 105 7 (status_ok (childProcess programs null_faults True rok (sampleProcess []))) 112]
       [sampleProcess []]) ! 0) \<and>
   \<not> finished (fcfs_p (FCFS 100
       [sampleEnv [] 7 105 7 (status_ok (childProcess programs null_faults True rok (sampleProcess []))) 112]
       [sampleProcess []]) ! 0)"
proof -
  have p: "parseCommand True rok (command (sampleProcess [])) = Some []"
    by (simp add: sampleProcess_def parseCommand_def)
  have st: "\<not> status_ok (childProcess programs null_faults True rok (sampleProcess []))"
    using p by (simp add: childProcess_def status_ok_def)
  show ?thesis using p st by (simp add: fcfs_defs sample_defs)
qed

section \<open>Tier of a new arrival\<close>

lemma getMLFQIndex_spec:
  "getMLFQIndex [quantum0, quantum1, quantum2] p tbl =
     spec_tier quantum0 quantum1 (predictedBurst tbl (command p))"
  by (simp add: getMLFQIndex_def spec_tier_def predictedBurst_def Let_def split: option.splits)

lemma OMLFQ_ingest_mono:
  "j < length (omlfq_queues s) \<Longrightarrow>
     set (omlfq_queues s ! j) \<subseteq> set (omlfq_queues (OMLFQ_ingest Quantum t0 as s) ! j)"
proof (induction as arbitrary: s)
  case Nil
  then show ?case by simp
next
  case (Cons a as)
  let ?s1 = "OMLFQ_ingest Quantum t0 [a] s"
  have "set (omlfq_queues s ! j) \<subseteq> set (omlfq_queues ?s1 ! j)"
  proof (cases "j = getMLFQIndex Quantum (newProcess t0 a) (omlfq_table s)")
    case True
    then show ?thesis using Cons.prems by (auto simp: Let_def enqueue_def)
  next
    case False
    then show ?thesis using Cons.prems by (auto simp: Let_def enqueue_def)
  qed
  moreover have "set (omlfq_queues ?s1 ! j) \<subseteq> set (omlfq_queues (OMLFQ_ingest Quantum t0 as ?s1) ! j)"
    using Cons.prems by (intro Cons.IH) (simp add: Let_def)
  ultimately show ?case by (simp add: Let_def)
qed

lemma OMLFQ_ingest_placed:
  "length (omlfq_queues s) = 3 \<Longrightarrow> i < length as \<Longrightarrow>
     length (omlfq_p s) + i \<in>
       set (omlfq_queues (OMLFQ_ingest Quantum t0 as s) !
              getMLFQIndex Quantum (newProcess t0 (as ! i)) (omlfq_table s))"
proof (induction as arbitrary: s i)
  case Nil
  then show ?case by simp
next
  case (Cons a as)
  let ?s1 = "OMLFQ_ingest Quantum t0 [a] s"
  have l1: "length (omlfq_queues ?s1) = 3" using Cons.prems by (simp add: Let_def)
  have t1: "omlfq_table ?s1 = omlfq_table s" by (simp add: Let_def)
  have p1: "length (omlfq_p ?s1) = Suc (length (omlfq_p s))" by (simp add: Let_def)
  have unfold: "OMLFQ_ingest Quantum t0 (a # as) s = OMLFQ_ingest Quantum t0 as ?s1"
    by (simp add: Let_def)
  show ?case
  proof (cases i)
    case 0
    let ?k = "getMLFQIndex Quantum (newProcess t0 a) (omlfq_table s)"
    have k: "?k < length (omlfq_queues ?s1)" using l1 getMLFQIndex_less by simp
    have "length (omlfq_p s) \<in> set (omlfq_queues ?s1 ! ?k)"
      using Cons.prems(1) getMLFQIndex_less [of Quantum "newProcess t0 a" "omlfq_table s"]
      by (simp add: Let_def enqueue_def)
    then show ?thesis using OMLFQ_ingest_mono [OF k, of Quantum t0 as] 0 unfold by auto
  next
    case (Suc i')
    then have "i' < length as" using Cons.prems by simp
    from Cons.IH [OF l1 this] show ?thesis using Suc unfold t1 p1 by simp
  qed
qed

lemma MLFQ_init_queues: "foldl enqueue q xs = q @ xs"
  by (induction xs arbitrary: q) (simp_all add: enqueue_def)

lemmas omlfq_defs = MultiLevelFeedbackQueue_online_def OMLFQ_init_def OMLFQ_step_def
  OMLFQ_round_def OMLFQ_slice_def OMLFQ_ingest.simps newProcess_def getMLFQIndex_def
  firstNonEmpty.simps dequeue_def enqueue_def boostCheck_def boost_def dispatch_def
  executeProcess_def resumeProcess_def pauseProcess_def markFinished_def markError_def Let_def

text \<open>
  Claim C3, as the code has it. \<^verbatim>\<open>getMLFQIndex\<close> computes the tier of the spec. In the online
  MLFQ every line of an ingestion becomes a new record that is enqueued in the tier given by
  the predicted burst of its command: tier 1 without history, tier 0 when the prediction is at
  most quantum0, else tier 1 when it is at most quantum1, else tier 2. The offline MLFQ does not
  classify: it starts with all records in tier 0, in array order.
\<close>

theorem mlfq_arrival_tier:
  "getMLFQIndex [quantum0, quantum1, quantum2] p tbl =
     spec_tier quantum0 quantum1 (predictedBurst tbl (command p)) \<and>
   (length (omlfq_queues s) = 3 \<and> i < length as \<longrightarrow>
      omlfq_p (OMLFQ_ingest [quantum0, quantum1, quantum2] t0 as s) ! (length (omlfq_p s) + i)
        = newProcess t0 (as ! i) \<and>
      length (omlfq_p s) + i \<in>
        set (omlfq_queues (OMLFQ_ingest [quantum0, quantum1, quantum2] t0 as s) !
               spec_tier quantum0 quantum1
                 (predictedBurst (omlfq_table s) (command (newProcess t0 (as ! i)))))) \<and>
   mlfq_queues (MLFQ_init t0 ps) = [[0 ..< length ps], [], []]"
proof -
  have a: "omlfq_p (OMLFQ_ingest [quantum0, quantum1, quantum2] t0 as s) ! (length (omlfq_p s) + i)
        = newProcess t0 (as ! i)" if "i < length as"
    using that by (simp add: OMLFQ_ingest_p)
  have b: "length (omlfq_p s) + i \<in>
        set (omlfq_queues (OMLFQ_ingest [quantum0, quantum1, quantum2] t0 as s) !
               spec_tier quantum0 quantum1
                 (predictedBurst (omlfq_table s) (command (newProcess t0 (as ! i)))))"
    if "length (omlfq_queues s) = 3" "i < length as"
    using OMLFQ_ingest_placed [OF that, of "[quantum0, quantum1, quantum2]" t0]
    by (simp add: getMLFQIndex_spec)
  have c: "mlfq_queues (MLFQ_init t0 ps) = [[0 ..< length ps], [], []]"
    by (simp add: MLFQ_init_def MLFQ_init_queues)
  show ?thesis using a b c getMLFQIndex_spec by blast
qed

theorem mlfq_arrival_tier_witness:
  "length (omlfq_queues warmState) = 3 \<and>
   predictedBurst (omlfq_table warmState) ''a'' = Some 10 \<and>
   predictedBurst (omlfq_table warmState) ''b'' = None \<and>
   command (omlfq_p (OMLFQ_ingest [20, 40, 80] 0
       [sampleArrival ''a\<newline>'' 11, sampleArrival ''b\<newline>'' 12] warmState) ! 1) = ''a'' \<and>
   1 \<in> set (omlfq_queues (OMLFQ_ingest [20, 40, 80] 0
       [sampleArrival ''a\<newline>'' 11, sampleArrival ''b\<newline>'' 12] warmState) ! 0) \<and>
   command (omlfq_p (OMLFQ_ingest [20, 40, 80] 0
       [sampleArrival ''a\<newline>'' 11, sampleArrival ''b\<newline>'' 12] warmState) ! 2) = ''b'' \<and>
   2 \<in> set (omlfq_queues (OMLFQ_ingest [20, 40, 80] 0
       [sampleArrival ''a\<newline>'' 11, sampleArrival ''b\<newline>'' 12] warmState) ! 1)"
proof -
  have s: "omlfq_queues warmState = [[], [], []]" "length (omlfq_p warmState) = 1"
    "predictedBurst (omlfq_table warmState) ''a'' = Some 10"
    "predictedBurst (omlfq_table warmState) ''b'' = None"
    by (simp_all add: warmState_def omlfq_defs sample_defs table_defs predictedBurst_def)
  have c: "command (newProcess 0 (sampleArrival ''a\<newline>'' 11)) = ''a''"
    "command (newProcess 0 (sampleArrival ''b\<newline>'' 12)) = ''b''"
    by (simp_all add: newProcess_def sampleArrival_def)
  show ?thesis
    using mlfq_arrival_tier [of 20 40 80 "sampleProcess []" "[]" warmState 0
        "[sampleArrival ''a\<newline>'' 11, sampleArrival ''b\<newline>'' 12]" 0 "[]"]
      mlfq_arrival_tier [of 20 40 80 "sampleProcess []" "[]" warmState 1
        "[sampleArrival ''a\<newline>'' 11, sampleArrival ''b\<newline>'' 12]" 0 "[]"]
    by (simp add: s c spec_tier_def numeral_2_eq_2 del: OMLFQ_ingest.simps)
qed

text \<open>
  Claim C3 as stated fails for the offline MLFQ, which keeps no history: the only record of
  this run, a command never seen before, starts in tier 0 and not in tier 1.
\<close>

theorem offline_mlfq_starts_in_tier0:
  "mlfq_queues (MultiLevelFeedbackQueue_offline 500 100 [] [sampleProcess ''sleep 1'']) ! 0 = [0] \<and>
   mlfq_queues (MultiLevelFeedbackQueue_offline 500 100 [] [sampleProcess ''sleep 1'']) ! 1 = [] \<and>
   spec_tier 20 40 None = 1"
  by (simp add: MultiLevelFeedbackQueue_offline_def MLFQ_init_def enqueue_def spec_tier_def)

section \<open>Single iterations\<close>

subsection \<open>Failed system calls\<close>












subsection \<open>The error branch\<close>

lemma markError_frame:
  "\<not> finished p \<Longrightarrow> error_frame (now - t0) p (markError (fst (dispatch p t0 e)) t0 now)"
  by (simp add: error_frame_def markError_def dispatch_def executeProcess_def resumeProcess_def Let_def)

lemma FCFS_error_frame:
  "\<not> finished p \<Longrightarrow>
     error_frame_burst (now - t0) p (FCFS_error (fst (executeProcess p t0 pid now')) t0 now)"
  by (simp add: error_frame_burst_def FCFS_error_def executeProcess_def Let_def)

lemma SJF_error_frame:
  "\<not> finished p \<Longrightarrow>
     error_frame_burst (now - t0) p (SJF_error (fst (executeProcess p t0 pid now')) t0 now)"
  by (simp add: error_frame_burst_def SJF_error_def executeProcess_def Let_def)

lemma FCFS_step_error:
  assumes "fcfs_i s < length (fcfs_p s)" "\<not> finished (fcfs_p s ! fcfs_i s)"
    "0 \<le> wait_ret e" "\<not> exit_ok e"
  shows "error_frame_burst (t_after e - t0) (fcfs_p s ! fcfs_i s) (fcfs_p (FCFS_step t0 e s) ! fcfs_i s)"
proof -
  have "fcfs_p (FCFS_step t0 e s) ! fcfs_i s =
      FCFS_error (fst (executeProcess (fcfs_p s ! fcfs_i s) t0 (fork_ret e) (t_dispatch e))) t0 (t_after e)"
    using assms by (simp add: FCFS_step_def FCFS_body_def split: prod.splits)
  then show ?thesis using FCFS_error_frame [OF assms(2)] by simp
qed

lemma RR_step_error:
  assumes "\<not> rr_stopped s" "0 < rr_remaining s" "rr_i s < length (rr_p s)"
    "\<not> finished (rr_p s ! rr_i s)" "\<not> error (rr_p s ! rr_i s)" "0 < wait_ret e" "\<not> exit_ok e"
  shows "error_frame (t_after e - t0) (rr_p s ! rr_i s) (rr_p (RR_step t0 e s) ! rr_i s)"
proof -
  have "rr_p (RR_step t0 e s) ! rr_i s = markError (fst (dispatch (rr_p s ! rr_i s) t0 e)) t0 (t_after e)"
    using assms by (simp add: RR_step_def afterQuantum_def Let_def split: prod.splits)
  then show ?thesis using markError_frame [OF assms(4)] by simp
qed

lemma MLFQ_step_error:
  assumes "\<not> mlfq_stopped s" "0 < mlfq_remaining s"
    "mlfq_queues s ! mlfq_current_queue s = i # rest" "i < length (mlfq_p s)"
    "\<not> finished (mlfq_p s ! i)" "\<not> error (mlfq_p s ! i)" "0 < wait_ret e" "\<not> exit_ok e"
  shows "error_frame (t_after e - t0) (mlfq_p s ! i) (mlfq_p (MLFQ_step boostTime t0 e s) ! i)"
proof -
  have "mlfq_p (MLFQ_step boostTime t0 e s) ! i = markError (fst (dispatch (mlfq_p s ! i) t0 e)) t0 (t_after e)"
    using assms by (simp add: MLFQ_step_def afterQuantum_def dequeue_def Let_def split: prod.splits)
  then show ?thesis using markError_frame [OF assms(5)] by simp
qed

lemma SJF_round_error:
  assumes "sjf_remaining s \<noteq> 0" "sjfSelect (sjf_table s) (sjf_p s) = int k"
    "0 \<le> wait_ret e" "\<not> exit_ok e"
  shows "error_frame_burst (t_after e - t0) (sjf_p s ! k) (sjf_p (SJF_round t0 e s) ! k) \<and>
         sjf_table (SJF_round t0 e s) = sjf_table s"
proof -
  have v: "k < length (sjf_p s)" "\<not> terminal (sjf_p s ! k)"
    using sjfSelect_valid [of "sjf_table s" "sjf_p s"] assms(2) by auto
  then have nf: "\<not> finished (sjf_p s ! k)" by (simp add: terminal_def)
  have "sjf_p (SJF_round t0 e s) ! k =
      SJF_error (fst (executeProcess (sjf_p s ! k) t0 (fork_ret e) (t_dispatch e))) t0 (t_after e)"
    "sjf_table (SJF_round t0 e s) = sjf_table s"
    using assms v(1) by (simp_all add: SJF_round_def Let_def split: prod.splits)
  then show ?thesis using SJF_error_frame [OF nf] by simp
qed

lemma OMLFQ_slice_error:
  assumes "firstNonEmpty (omlfq_queues s) 0 = Some i" "omlfq_queues s ! i = k # rest"
    "k < length (omlfq_p s)" "\<not> finished (omlfq_p s ! k)" "0 < wait_ret e" "\<not> exit_ok e"
  shows "error_frame (t_after e - t0) (omlfq_p s ! k) (omlfq_p (OMLFQ_slice t0 e s) ! k) \<and>
         omlfq_table (OMLFQ_slice t0 e s) = omlfq_table s"
proof -
  have "omlfq_p (OMLFQ_slice t0 e s) ! k = markError (fst (dispatch (omlfq_p s ! k) t0 e)) t0 (t_after e)"
    "omlfq_table (OMLFQ_slice t0 e s) = omlfq_table s"
    using assms by (simp_all add: OMLFQ_slice_def dequeue_def Let_def split: prod.splits)
  then show ?thesis using markError_frame [OF assms(4)] by simp
qed

lemma OMLFQ_round_error:
  assumes "omlfq_remaining s \<noteq> 0" "firstNonEmpty (omlfq_queues s) 0 = Some i"
    "omlfq_queues s ! i = k # rest" "k < length (omlfq_p s)" "\<not> finished (omlfq_p s ! k)"
    "0 < wait_ret e" "\<not> exit_ok e"
  shows "error_frame (t_after e - t0) (omlfq_p s ! k) (omlfq_p (OMLFQ_round boostTime t0 e s) ! k) \<and>
         omlfq_table (OMLFQ_round boostTime t0 e s) = omlfq_table s"
  using OMLFQ_slice_error [OF assms(2-7), of t0] OMLFQ_round_p [OF assms(1), of boostTime t0 e]
  by simp

section \<open>The transition to the error state\<close>

text \<open>
  Claim C5, as the code has it. When the child of the running record has exited with a nonzero
  status or abnormally, every policy sets the error flag, stamps the context-end time and
  finalizes the response time; the turnaround, waiting and completion times keep the values
  they had before the iteration, and the history table is not updated. Round robin and both
  MLFQ variants also leave the burst at its accumulated value; FCFS and SJF overwrite it with
  context-end minus context-start.
\<close>

theorem error_transition_frame:
  "(fcfs_i fs < length (fcfs_p fs) \<and> \<not> finished (fcfs_p fs ! fcfs_i fs) \<and>
    0 \<le> wait_ret e \<and> \<not> exit_ok e \<longrightarrow>
      error_frame_burst (t_after e - t0) (fcfs_p fs ! fcfs_i fs)
        (fcfs_p (FCFS_step t0 e fs) ! fcfs_i fs)) \<and>
   (sjf_remaining js \<noteq> 0 \<and> sjfSelect (sjf_table js) (sjf_p js) = int k \<and>
    0 \<le> wait_ret e \<and> \<not> exit_ok e \<longrightarrow>
      error_frame_burst (t_after e - t0) (sjf_p js ! k) (sjf_p (SJF_round t0 e js) ! k) \<and>
      sjf_table (SJF_round t0 e js) = sjf_table js) \<and>
   (\<not> rr_stopped rs \<and> 0 < rr_remaining rs \<and> rr_i rs < length (rr_p rs) \<and>
    \<not> finished (rr_p rs ! rr_i rs) \<and> \<not> error (rr_p rs ! rr_i rs) \<and>
    0 < wait_ret e \<and> \<not> exit_ok e \<longrightarrow>
      error_frame (t_after e - t0) (rr_p rs ! rr_i rs) (rr_p (RR_step t0 e rs) ! rr_i rs)) \<and>
   (\<not> mlfq_stopped ms \<and> 0 < mlfq_remaining ms \<and>
    mlfq_queues ms ! mlfq_current_queue ms = i # rest \<and> i < length (mlfq_p ms) \<and>
    \<not> finished (mlfq_p ms ! i) \<and> \<not> error (mlfq_p ms ! i) \<and>
    0 < wait_ret e \<and> \<not> exit_ok e \<longrightarrow>
      error_frame (t_after e - t0) (mlfq_p ms ! i) (mlfq_p (MLFQ_step boostTime t0 e ms) ! i)) \<and>
   (omlfq_remaining os \<noteq> 0 \<and>
    firstNonEmpty (omlfq_queues os) 0 = Some tier \<and> omlfq_queues os ! tier = j # rest' \<and>
    j < length (omlfq_p os) \<and> \<not> finished (omlfq_p os ! j) \<and>
    0 < wait_ret e \<and> \<not> exit_ok e \<longrightarrow>
      error_frame (t_after e - t0) (omlfq_p os ! j) (omlfq_p (OMLFQ_round boostTime t0 e os) ! j) \<and>
      omlfq_table (OMLFQ_round boostTime t0 e os) = omlfq_table os)"
  using FCFS_step_error [of fs e t0] SJF_round_error [of js k e t0] RR_step_error [of rs e t0]
    MLFQ_step_error [of ms i rest e t0 boostTime] OMLFQ_round_error [of os tier j rest' e t0 boostTime]
  by blast

theorem error_transition_frame_witness:
  "fcfs_i pendingFCFS < length (fcfs_p pendingFCFS) \<and> \<not> finished (fcfs_p pendingFCFS ! fcfs_i pendingFCFS) \<and>
   sjf_remaining pendingSJF \<noteq> 0 \<and> sjfSelect (sjf_table pendingSJF) (sjf_p pendingSJF) = int 0 \<and>
   \<not> rr_stopped pausedRR \<and> 0 < rr_remaining pausedRR \<and> rr_i pausedRR < length (rr_p pausedRR) \<and>
   \<not> finished (rr_p pausedRR ! rr_i pausedRR) \<and> \<not> error (rr_p pausedRR ! rr_i pausedRR) \<and>
   \<not> mlfq_stopped pendingMLFQ \<and> 0 < mlfq_remaining pendingMLFQ \<and>
   mlfq_queues pendingMLFQ ! mlfq_current_queue pendingMLFQ = 0 # [] \<and>
   0 < length (mlfq_p pendingMLFQ) \<and>
   \<not> finished (mlfq_p pendingMLFQ ! 0) \<and> \<not> error (mlfq_p pendingMLFQ ! 0) \<and>
   omlfq_remaining pendingOMLFQ \<noteq> 0 \<and>
   firstNonEmpty (omlfq_queues pendingOMLFQ) 0 = Some 1 \<and> omlfq_queues pendingOMLFQ ! 1 = 0 # [] \<and>
   0 < length (omlfq_p pendingOMLFQ) \<and> \<not> finished (omlfq_p pendingOMLFQ ! 0) \<and>
   0 < wait_ret exitBad \<and> \<not> exit_ok exitBad \<and>
   error_frame_burst 31 (fcfs_p pendingFCFS ! 0) (fcfs_p (FCFS_step 100 exitBad pendingFCFS) ! 0) \<and>
   error_frame_burst 31 (sjf_p pendingSJF ! 0) (sjf_p (SJF_round 100 exitBad pendingSJF) ! 0) \<and>
   sjf_table (SJF_round 100 exitBad pendingSJF) = sjf_table pendingSJF \<and>
   error_frame 31 (rr_p pausedRR ! 0) (rr_p (RR_step 100 exitBad pausedRR) ! 0) \<and>
   burst_time (rr_p pausedRR ! 0) = 7 \<and>
   burst_time (rr_p (RR_step 100 exitBad pausedRR) ! 0) = 7 \<and>
   error_frame 31 (mlfq_p pendingMLFQ ! 0) (mlfq_p (MLFQ_step 500 100 exitBad pendingMLFQ) ! 0) \<and>
   error_frame 31 (omlfq_p pendingOMLFQ ! 0) (omlfq_p (OMLFQ_round 500 100 exitBad pendingOMLFQ) ! 0) \<and>
   omlfq_table (OMLFQ_round 500 100 exitBad pendingOMLFQ) = omlfq_table pendingOMLFQ"
proof -
  have h: "fcfs_i pendingFCFS = 0" "length (fcfs_p pendingFCFS) = 1"
    "\<not> finished (fcfs_p pendingFCFS ! 0)"
    "sjf_remaining pendingSJF = 1" "sjfSelect (sjf_table pendingSJF) (sjf_p pendingSJF) = 0"
    "\<not> rr_stopped pausedRR" "0 < rr_remaining pausedRR" "rr_i pausedRR = 0"
    "length (rr_p pausedRR) = 1" "\<not> finished (rr_p pausedRR ! 0)" "\<not> error (rr_p pausedRR ! 0)"
    "burst_time (rr_p pausedRR ! 0) = 7"
    "\<not> mlfq_stopped pendingMLFQ" "0 < mlfq_remaining pendingMLFQ"
    "mlfq_current_queue pendingMLFQ = 0" "mlfq_queues pendingMLFQ = [[0], [], []]"
    "length (mlfq_p pendingMLFQ) = 1" "\<not> finished (mlfq_p pendingMLFQ ! 0)"
    "\<not> error (mlfq_p pendingMLFQ ! 0)"
    "omlfq_remaining pendingOMLFQ = 1" "omlfq_queues pendingOMLFQ = [[], [0], []]"
    "length (omlfq_p pendingOMLFQ) = 1" "\<not> finished (omlfq_p pendingOMLFQ ! 0)"
    "wait_ret exitBad = 7" "\<not> exit_ok exitBad" "t_after exitBad = 131"
    by (simp_all add: pendingFCFS_def pendingRR_def pausedRR_def pendingMLFQ_def pendingSJF_def
        pendingOMLFQ_def exitBad_def fcfs_defs rr_defs sjf_defs omlfq_defs sample_defs
        table_defs MLFQ_init_def)
  have q: "firstNonEmpty [[], [0], []] 0 = Some 1"
    by simp
  note t = error_transition_frame [where fs = pendingFCFS and js = pendingSJF and k = 0
      and rs = pausedRR and ms = pendingMLFQ and i = 0 and rest = "[]" and os = pendingOMLFQ
      and tier = 1 and j = 0 and rest' = "[]" and e = exitBad and ?t0.0 = 100
      and boostTime = 500]
  have b: "error_frame 31 (rr_p pausedRR ! 0) (rr_p (RR_step 100 exitBad pausedRR) ! 0)"
    using t h q by simp
  have "burst_time (rr_p (RR_step 100 exitBad pausedRR) ! 0) = 7"
    using b h(12) by (simp add: error_frame_def)
  then show ?thesis
    using t h q by simp
qed

text \<open>
  Claim C5 as stated fails for FCFS (and for SJF, whose error branch is the same): the burst
  does not keep its previous value. In \<open>failedRun\<close> the record enters the iteration with burst
  0 and leaves it in error with burst 7.
\<close>

theorem fcfs_error_overwrites_burst:
  "burst_time (fcfs_p (FCFS_init [sampleProcess ''false'']) ! 0) = 0 \<and>
   failedRun = FCFS_step 100 (sampleEnv [] 7 105 7 False 112) (FCFS_init [sampleProcess ''false'']) \<and>
   error (fcfs_p failedRun ! 0) \<and>
   burst_time (fcfs_p failedRun ! 0) = 7"
  by (simp add: failedRun_def fcfs_defs sample_defs)

section \<open>Failures of the control calls\<close>




section \<open>Selection of the online SJF scheduler\<close>

text \<open>
  Among the records that are not terminal and whose estimate is below the initial bound
  \<open>10\<^sup>9\<close> of the scan, \<^verbatim>\<open>ShortestJobFirst\<close> selects the first one with the least estimate
  (lemma \<open>sjfSelect_spec\<close>); the selected record is run and, when the blocking wait succeeds,
  closed in the same iteration.
\<close>

lemma SJF_round_completes:
  assumes "sjf_remaining s \<noteq> 0" "sjfSelect (sjf_table s) (sjf_p s) = int k" "0 \<le> wait_ret e"
  shows "terminal (sjf_p (SJF_round t0 e s) ! k) \<and>
         sjf_remaining (SJF_round t0 e s) = sjf_remaining s - 1"
proof -
  have v: "k < length (sjf_p s)"
    using sjfSelect_valid [of "sjf_table s" "sjf_p s"] assms(2) by auto
  show ?thesis using assms v
    by (simp add: SJF_round_def SJF_finished_def SJF_error_def terminal_def Let_def split: prod.splits)
qed

text \<open>
  Claim C4 asks for a selection whenever a record is pending. In \<open>starvedRun\<close> the command \<^verbatim>\<open>a\<close>
  has completed once with a burst of \<open>10\<^sup>9\<close> ms, so the estimate of its second arrival is not
  below the bound: the scan selects nothing although that record is the only one pending, the
  scheduler prints that no process was found, and the record is not started.
\<close>

theorem sjf_starves_long_estimate:
  "length (sjf_p starvedRun) = 2 \<and>
   finished (sjf_p starvedRun ! 0) \<and>
   \<not> finished (sjf_p starvedRun ! 1) \<and> \<not> error (sjf_p starvedRun ! 1) \<and>
   \<not> started (sjf_p starvedRun ! 1) \<and>
   sjf_remaining starvedRun = 1 \<and>
   getExpectedBurstTime (sjf_table starvedRun) (sjf_p starvedRun ! 1) = 1000000000 \<and>
   sjfSelect (sjf_table starvedRun) (sjf_p starvedRun) = - 1 \<and>
   last (sjf_out starvedRun) = Printed ''No process found''"
  by (simp add: starvedRun_def sjf_defs sample_defs table_defs)

end
